theory Spec2Isabelle
  imports Main "HOL-Library.Sublist"
begin

section \<open>Strings and the string primitives of the source\<close>

text \<open>
  A Javascript string is a sequence of code units; it is modelled as a \<^typ>\<open>string\<close>, each
  \<^typ>\<open>char\<close> standing for the code unit of the same number (\<open>0\<close> to \<open>255\<close>). Cursor
  positions are Javascript numbers used as indices; they are modelled as \<^typ>\<open>int\<close>, and
  the clamping that \<open>String.prototype.slice\<close> applies to negative and to too large indices
  is written out.
\<close>

definition dquote :: char where
  \<open>dquote = CHR 0x22\<close>

definition squote :: char where
  \<open>squote = CHR 0x27\<close>

text \<open>\<open>s.slice(b, e)\<close>: a negative index counts from the end, both are clamped to the string.\<close>

definition slice :: \<open>string \<Rightarrow> int \<Rightarrow> int \<Rightarrow> string\<close> where
  \<open>slice s b e =
     (let n = int (length s);
          from = (if b < 0 then max (n + b) 0 else min b n);
          to = (if e < 0 then max (n + e) 0 else min e n)
      in take (nat (to - from)) (drop (nat from) s))\<close>

text \<open>\<open>s[i]\<close>: the character at index \<open>i\<close>, \<open>undefined\<close> (here \<open>None\<close>) out of range.\<close>

definition at :: \<open>string \<Rightarrow> int \<Rightarrow> char option\<close> where
  \<open>at s i = (if 0 \<le> i \<and> i < int (length s) then Some (s ! nat i) else None)\<close>

text \<open>\<open>s.charAt(i)\<close>: a string of one character, the empty string out of range.\<close>

definition charAt :: \<open>string \<Rightarrow> int \<Rightarrow> string\<close> where
  \<open>charAt s i = (if 0 \<le> i \<and> i < int (length s) then [s ! nat i] else [])\<close>

text \<open>\<open>s.indexOf(m)\<close>: the least index at which \<open>m\<close> occurs in \<open>s\<close>, \<open>-1\<close> if there is none.\<close>

definition indexOf :: \<open>string \<Rightarrow> string \<Rightarrow> int\<close> where
  \<open>indexOf s m =
     (case find (\<lambda>i. take (length m) (drop i s) = m) [0 ..< Suc (length s)] of
        None \<Rightarrow> - 1
      | Some i \<Rightarrow> int i)\<close>

text \<open>
  \<open>e.lastIndexOf(m, 0)\<close>: the search goes backwards from index \<open>0\<close>, so the only index tried
  is \<open>0\<close>.
\<close>

definition lastIndexOf0 :: \<open>string \<Rightarrow> string \<Rightarrow> int\<close> where
  \<open>lastIndexOf0 e m = (if take (length m) e = m then 0 else - 1)\<close>

section \<open>The regular expressions\<close>

text \<open>The character classes \<open>\s\<close>, \<open>[_$a-zA-Z]\<close>, \<open>[_$a-zA-Z0-9]\<close>, \<open>[a-zA-Z]\<close> and \<open>.\<close>.\<close>

definition whitespace :: \<open>char \<Rightarrow> bool\<close> where
  \<open>whitespace c \<longleftrightarrow>
     c \<in> set [CHR 0x09, CHR 0x0A, CHR 0x0B, CHR 0x0C, CHR 0x0D, CHR 0x20, CHR 0xA0]\<close>

definition letter :: \<open>char \<Rightarrow> bool\<close> where
  \<open>letter c \<longleftrightarrow> c \<in> set ''abcdefghijklmnopqrstuvwxyzABCDEFGHIJKLMNOPQRSTUVWXYZ''\<close>

definition digit :: \<open>char \<Rightarrow> bool\<close> where
  \<open>digit c \<longleftrightarrow> c \<in> set ''0123456789''\<close>

definition identStart :: \<open>char \<Rightarrow> bool\<close> where
  \<open>identStart c \<longleftrightarrow> c = CHR ''_'' \<or> c = CHR ''$'' \<or> letter c\<close>

definition identPart :: \<open>char \<Rightarrow> bool\<close> where
  \<open>identPart c \<longleftrightarrow> identStart c \<or> digit c\<close>

definition lineTerminator :: \<open>char \<Rightarrow> bool\<close> where
  \<open>lineTerminator c \<longleftrightarrow> c = CHR 0x0A \<or> c = CHR 0x0D\<close>

text \<open>
  \<open>whitespaceRE.test(x)\<close> where \<open>x\<close> is \<open>expression[expression.length - 1]\<close>: the argument is a
  string of one character, or \<open>undefined\<close>, whose string form \<open>"undefined"\<close> has no whitespace.
\<close>

definition whitespaceRE_test :: \<open>char option \<Rightarrow> bool\<close> where
  \<open>whitespaceRE_test x = (case x of None \<Rightarrow> False | Some c \<Rightarrow> whitespace c)\<close>

text \<open>
  \<open>[_$a-zA-Z][_$a-zA-Z0-9]*\<close> as a set of words: \<open>identifierWord w\<close> holds when the whole of \<open>w\<close>
  matches.
\<close>

definition identifierWord :: \<open>string \<Rightarrow> bool\<close> where
  \<open>identifierWord w = (case w of [] \<Rightarrow> False | c # cs \<Rightarrow> identStart c \<and> list_all identPart cs)\<close>

text \<open>\<open>\[".*"\]\<close> and \<open>\['.*'\]\<close>: the quote is the parameter \<open>q\<close>.\<close>

definition bracketed :: \<open>char \<Rightarrow> string \<Rightarrow> bool\<close> where
  \<open>bracketed q w \<longleftrightarrow>
     4 \<le> length w \<and> take 2 w = [CHR ''['', q] \<and> drop (length w - 2) w = [q, CHR '']'']
       \<and> list_all (\<lambda>c. \<not> lineTerminator c) (take (length w - 4) (drop 2 w))\<close>

text \<open>One round of the group \<open>(?:ident|\.ident|\[".*"\]|\['.*'\])\<close>.\<close>

definition accessor :: \<open>string \<Rightarrow> bool\<close> where
  \<open>accessor w \<longleftrightarrow>
     identifierWord w
     \<or> (case w of [] \<Rightarrow> False | c # cs \<Rightarrow> c = CHR ''.'' \<and> identifierWord cs)
     \<or> bracketed dquote w
     \<or> bracketed squote w\<close>

text \<open>
  The starred group: a word matches when it is empty or splits into a non-empty first round
  and a rest that matches again (no round matches the empty word).
\<close>

function accessors :: \<open>string \<Rightarrow> bool\<close> where
  \<open>accessors w \<longleftrightarrow>
     w = [] \<or> list_ex (\<lambda>k. accessor (take k w) \<and> accessors (drop k w)) [1 ..< Suc (length w)]\<close>
  by pat_completeness auto
termination
  by (relation \<open>measure length\<close>) auto

declare accessors.simps [simp del]

text \<open>The body of \<open>complexIdentifierRE\<close> without its anchor \<open>$\<close>.\<close>

definition complexIdentifier :: \<open>string \<Rightarrow> bool\<close> where
  \<open>complexIdentifier w \<longleftrightarrow>
     list_ex (\<lambda>k. identifierWord (take k w) \<and> accessors (drop k w)) [1 ..< Suc (length w)]\<close>

text \<open>
  \<open>re.exec(s)\<close> for a pattern that ends in \<open>$\<close>: the match starts at the least index from
  which the rest of \<open>s\<close> matches the pattern, and runs to the end of \<open>s\<close>. The result is the
  pair of \<open>re.index\<close> and \<open>re[0]\<close>, or \<open>None\<close> for \<open>null\<close>.
\<close>

definition exec_anchored :: \<open>(string \<Rightarrow> bool) \<Rightarrow> string \<Rightarrow> (nat \<times> string) option\<close> where
  \<open>exec_anchored p s =
     (case find (\<lambda>i. p (drop i s)) [0 ..< Suc (length s)] of
        None \<Rightarrow> None
      | Some i \<Rightarrow> Some (i, drop i s))\<close>

definition simpleIdentifierRE_exec :: \<open>string \<Rightarrow> (nat \<times> string) option\<close> where
  \<open>simpleIdentifierRE_exec = exec_anchored identifierWord\<close>

definition complexIdentifierRE_exec :: \<open>string \<Rightarrow> (nat \<times> string) option\<close> where
  \<open>complexIdentifierRE_exec = exec_anchored complexIdentifier\<close>

section \<open>The expression parser\<close>

record expression =
  matchedText :: string
  scope :: string
  leftOp :: string
  selector :: string
  rightOp :: string

text \<open>
  The second half of \<open>parseExpression\<close>, from \<open>var scope\<close> on: it is reached with \<open>expression\<close>
  cut before the operator.
\<close>

definition parseScope ::
  \<open>string \<Rightarrow> int \<Rightarrow> string \<Rightarrow> string \<Rightarrow> string \<Rightarrow> string \<Rightarrow> expression option\<close> where
  \<open>parseScope code cursorPos expression leftOp' rightOp' selector' =
     (case complexIdentifierRE_exec expression of
        Some (index, m) \<Rightarrow>
          Some \<lparr>matchedText = slice code (int index) cursorPos, scope = m,
                leftOp = leftOp', selector = selector', rightOp = rightOp'\<rparr>
      | None \<Rightarrow>
          if leftOp' = [] then
            Some \<lparr>matchedText = slice code (int (length expression)) cursorPos, scope = [],
                  leftOp = leftOp', selector = selector', rightOp = rightOp'\<rparr>
          else None)\<close>

definition parseExpression :: \<open>string \<Rightarrow> int \<Rightarrow> expression option\<close> where
  \<open>parseExpression code cursorPos =
     (let expression = slice code 0 cursorPos in
      if expression = [] \<or> whitespaceRE_test (at expression (int (length expression) - 1)) then
        Some \<lparr>matchedText = [], scope = [], leftOp = [], selector = [], rightOp = []\<rparr>
      else
        let (selector', expression) =
              (case simpleIdentifierRE_exec expression of
                 None \<Rightarrow> ([], expression)
               | Some (index, m) \<Rightarrow> (m, slice expression 0 (int index)));
            n = int (length expression)
        in
        if at expression (n - 1) = Some CHR ''.'' then
          parseScope code cursorPos (slice expression 0 (n - 1)) ''.'' [] selector'
        else if at expression (n - 2) = Some CHR ''['' \<and> at expression (n - 1) = Some dquote then
          parseScope code cursorPos (slice expression 0 (n - 2))
            [CHR ''['', dquote] [dquote, CHR '']''] selector'
        else if at expression (n - 2) = Some CHR ''['' \<and> at expression (n - 1) = Some squote then
          parseScope code cursorPos (slice expression 0 (n - 2))
            [CHR ''['', squote] [squote, CHR '']''] selector'
        else
          Some \<lparr>matchedText = slice code (int (length expression)) cursorPos, scope = [],
                leftOp = [], selector = selector', rightOp = []\<rparr>)\<close>

section \<open>Completion\<close>

definition javascriptKeywords :: \<open>string list\<close> where
  \<open>javascriptKeywords =
     [''break'', ''case'', ''catch'', ''continue'', ''debugger'', ''default'',
      ''delete'', ''do'', ''else'', ''finally'', ''for'', ''function'', ''if'',
      ''in'', ''instanceof'', ''new'', ''return'', ''switch'', ''this'',
      ''throw'', ''try'', ''typeof'', ''var'', ''void'', ''while'', ''with'',
      ''class'', ''const'', ''enum'', ''export'', ''extends'', ''import'',
      ''super'',
      ''implements'', ''interface'', ''let'', ''package'', ''private'',
      ''protected'', ''public'', ''static'', ''yield'',
      ''null'',
      ''true'', ''false'']\<close>

record completion =
  c_list :: \<open>string list\<close>
  c_code :: string
  c_cursorPos :: int
  c_matchedText :: string
  c_cursorStart :: int
  c_cursorEnd :: int

text \<open>
  The loop \<open>for (var i = 0; i < ml && cursorEnd < cl; i++, cursorEnd++)\<close> of \<open>complete\<close>,
  which leaves at the first \<open>i\<close> where the two characters differ; the result is \<open>cursorEnd\<close>.
\<close>

function scan :: \<open>string \<Rightarrow> string \<Rightarrow> nat \<Rightarrow> int \<Rightarrow> int\<close> where
  \<open>scan shortestMatch code i cursorEnd =
     (if i < length shortestMatch \<and> cursorEnd < int (length code) then
        if charAt shortestMatch (int i) \<noteq> charAt code cursorEnd then cursorEnd
        else scan shortestMatch code (Suc i) (cursorEnd + 1)
      else cursorEnd)\<close>
  by pat_completeness auto
termination
  by (relation \<open>measure (\<lambda>(shortestMatch, code, i, cursorEnd). length shortestMatch - i)\<close>) auto

declare scan.simps [simp del]

text \<open>
  The function that \<open>complete\<close> installs as \<open>onSuccess\<close> of its task, up to the result it hands
  to \<open>onCompletionSuccess\<close>; \<open>names\<close> is \<open>result.names\<close>. The test \<open>matchList.length > 0\<close> and
  the \<open>reduce\<close> without a start value are the \<open>case\<close> on the list.
\<close>

definition complete_onSuccess :: \<open>string \<Rightarrow> int \<Rightarrow> expression \<Rightarrow> string list \<Rightarrow> completion\<close> where
  \<open>complete_onSuccess code cursorPos expression names =
     (let matchList = [] @ names;
          matchList = (if scope expression = [] then matchList @ javascriptKeywords
                       else matchList);
          matchList = (if selector expression \<noteq> [] then
                         filter (\<lambda>e. lastIndexOf0 e (selector expression) = 0) matchList
                       else matchList);
          left = scope expression @ leftOp expression;
          right = rightOp expression;
          matchList = (if left \<noteq> [] \<or> right \<noteq> [] then map (\<lambda>e. left @ e @ right) matchList
                       else matchList);
          (cursorStart, cursorEnd) =
            (case matchList of
               [] \<Rightarrow> (cursorPos, cursorPos)
             | p # cs \<Rightarrow>
                 let shortestMatch = foldl (\<lambda>p c. if length p \<le> length c then p else c) p cs;
                     cursorStart = indexOf code (matchedText expression)
                 in (cursorStart, scan shortestMatch code 0 cursorStart))
      in \<lparr>c_list = matchList, c_code = code, c_cursorPos = cursorPos,
          c_matchedText = matchedText expression,
          c_cursorStart = cursorStart, c_cursorEnd = cursorEnd\<rparr>)\<close>

section \<open>Documentation lookup\<close>

record documentation =
  description :: string
  usage :: \<open>string option\<close>
  url :: string

text \<open>
  The table \<open>doc\<close> of \<open>mdn.js\<close> is a parameter: a map from names to entries, \<open>name in doc\<close>
  being \<open>doc name \<noteq> None\<close>.
\<close>

type_synonym doc_table = \<open>string \<Rightarrow> documentation option\<close>

text \<open>
  The match of \<open>/^[a-zA-Z]+W./\<close> in \<open>name\<close>, for a word \<open>W\<close>: the letters are taken greedily
  and given back one at a time, down to one letter, until \<open>W\<close> and one more character that
  is no line terminator follow. \<open>backtrack W name k\<close> tries \<open>k\<close> letters, then fewer; the result
  is the index where the match ends.
\<close>

fun backtrack :: \<open>string \<Rightarrow> string \<Rightarrow> nat \<Rightarrow> nat option\<close> where
  \<open>backtrack word name 0 = None\<close>
| \<open>backtrack word name (Suc k) =
     (if take (length word) (drop (Suc k) name) = word
         \<and> (case drop (Suc k + length word) name of [] \<Rightarrow> False | c # _ \<Rightarrow> \<not> lineTerminator c)
      then Some (Suc k + length word + 1)
      else backtrack word name k)\<close>

text \<open>\<open>name.replace(/^[a-zA-Z]+W./, replacement)\<close>.\<close>

definition replacePrefix :: \<open>string \<Rightarrow> string \<Rightarrow> string \<Rightarrow> string\<close> where
  \<open>replacePrefix word replacement name =
     (case backtrack word name (length (takeWhile letter name)) of
        None \<Rightarrow> name
      | Some j \<Rightarrow> replacement @ drop j name)\<close>

definition getDocumentation :: \<open>doc_table \<Rightarrow> string \<Rightarrow> documentation option\<close> where
  \<open>getDocumentation doc name =
     (let builtinName = name in
      if doc builtinName \<noteq> None then doc builtinName
      else
        let builtinName = replacePrefix ''Error'' ''Error.'' name in
        if doc builtinName \<noteq> None then doc builtinName
        else
          let builtinName = replacePrefix ''Array'' ''TypedArray.'' name in
          if doc builtinName \<noteq> None then doc builtinName
          else None)\<close>

section \<open>Messages, callbacks, tasks\<close>

record error_info =
  ename :: string
  evalue :: string
  traceback :: \<open>string list\<close>

record mime =
  text_plain :: \<open>string option\<close>
  text_html :: \<open>string option\<close>

text \<open>
  The object under \<open>inspection\<close> of an inspection result. The worker fills in \<open>string\<close>,
  \<open>type\<close> and, where they exist, \<open>constructorList\<close> and \<open>length\<close>; \<open>inspect\<close> writes \<open>code\<close>,
  \<open>cursorPos\<close> and \<open>matchedText\<close>.
\<close>

record inspection =
  i_string :: string
  i_type :: string
  i_constructorList :: \<open>string list option\<close>
  i_length :: \<open>int option\<close>
  i_code :: \<open>string option\<close>
  i_cursorPos :: \<open>int option\<close>
  i_matchedText :: \<open>string option\<close>

record inspection_result =
  inspection :: inspection
  doc :: \<open>documentation option\<close>

text \<open>
  A message of the worker. \<open>message.hasOwnProperty("error")\<close> holds of \<open>ErrorResult\<close> alone.
\<close>

datatype message =
    ErrorResult error_info
  | ExecutionResult mime
  | NameListResult \<open>string list\<close>
  | InspectionResult inspection_result

text \<open>What a callback of the caller is called with.\<close>

datatype arg =
    NoArgs
  | Message message
  | CompletionResult completion
  | Exit \<open>int option\<close> \<open>string option\<close>

text \<open>
  A callback of the caller is a Javascript function, which may call the session again while
  it runs. \<open>Callback l body\<close> is the callback with the label \<open>l\<close> that makes the calls \<open>body\<close>
  on the session, in this order; an absent callback is \<open>None\<close>. The calls are those of the
  interface that the properties below are about: \<open>execute\<close>, \<open>complete\<close>, \<open>inspect\<close> and
  \<open>kill\<close>. (\<open>restart\<close>, which runs the constructor again once the old worker has exited, is
  left out.)
\<close>

datatype cmd =
    Execute string \<open>cb option\<close> \<open>cb option\<close> \<open>cb option\<close> \<open>cb option\<close>
  | Complete string int \<open>cb option\<close> \<open>cb option\<close> \<open>cb option\<close> \<open>cb option\<close>
  | Inspect string int \<open>cb option\<close> \<open>cb option\<close> \<open>cb option\<close> \<open>cb option\<close>
  | Kill \<open>string option\<close> \<open>cb option\<close>
and cb = Callback nat \<open>cmd list\<close>

text \<open>
  The \<open>onSuccess\<close> of a task is the caller's callback (\<open>execute\<close>) or a function written in
  \<open>complete\<close> or \<open>inspect\<close>; such a function is represented by the variables it captures:
  \<^item> \<open>CompleteClosure code cursorPos expression onCompletionSuccess\<close>, in \<open>complete\<close>;
  \<^item> \<open>InspectClosure code cursorPos expression onInspectionSuccess onError beforeRun afterRun\<close>,
    of the first task of \<open>inspect\<close>;
  \<^item> \<open>ScopeClosure inspectionResult expression onInspectionSuccess afterRun\<close>, of the task made
    in \<open>getDocumentationAndInvokeCallbacks\<close>.
\<close>

datatype closure =
    Caller cb
  | CompleteClosure string int expression \<open>cb option\<close>
  | InspectClosure string int expression \<open>cb option\<close> \<open>cb option\<close> \<open>cb option\<close> \<open>cb option\<close>
  | ScopeClosure inspection_result expression \<open>cb option\<close> \<open>cb option\<close>

record task =
  t_action :: string
  t_code :: string
  t_onSuccess :: \<open>closure option\<close>
  t_onError :: \<open>cb option\<close>
  t_beforeRun :: \<open>cb option\<close>
  t_afterRun :: \<open>cb option\<close>

text \<open>
  What the session does to the outside, in the order in which it happens:
  \<open>this._server.send([action, code])\<close>, a call of a callback of the caller,
  \<open>log("SESSION: TASK:", task)\<close> in \<open>_run\<close>, \<open>log("SESSION: MESSAGE", message)\<close> in
  \<open>_onMessage\<close>, and \<open>this._server.kill(signal)\<close>.
\<close>

datatype event =
    Send string string
  | Called nat arg
  | LogTask string string
  | LogMessage message
  | KillSignal string

text \<open>
  The fields \<open>_task\<close>, \<open>_tasks\<close> and \<open>_killed\<close> of a session, the listeners on its server (the
  one for \<open>"message"\<close> set by the constructor, the one for \<open>"exit"\<close> set by \<open>kill\<close>, which holds
  \<open>killCB\<close>), and the events so far.
\<close>

record session =
  s_task :: \<open>task option\<close>
  s_tasks :: \<open>task list\<close>
  s_killed :: bool
  messageListener :: bool
  exitListener :: \<open>cb option option\<close>
  trace :: \<open>event list\<close>

datatype error = TypeError

section \<open>The session\<close>

definition Session :: session where
  \<open>Session = \<lparr>s_task = None, s_tasks = [], s_killed = False, messageListener = True,
               exitListener = None, trace = []\<rparr>\<close>

definition emit :: \<open>event \<Rightarrow> session \<Rightarrow> session\<close> where
  \<open>emit e s = s\<lparr>trace := trace s @ [e]\<rparr>\<close>

text \<open>
  The functions that call a callback of the caller take the way of calling as the parameter
  \<open>call\<close>: \<open>call f x s\<close> is \<open>if (f) { f(x) }\<close> run in the state \<open>s\<close>. It is instantiated below by
  \<open>invoke\<close>, which is defined by recursion through these functions.
\<close>

type_synonym invoker = \<open>cb option \<Rightarrow> arg \<Rightarrow> session \<Rightarrow> session\<close>

text \<open>
  \<open>_runNow\<close>. After \<open>beforeRun\<close> the source reads \<open>this._task\<close> again for the message it sends;
  this is \<open>task\<close> still (\<open>runNow_task\<close> below: no call on the session changes \<open>_task\<close> while it
  is set).
\<close>

definition runNow :: \<open>invoker \<Rightarrow> task \<Rightarrow> session \<Rightarrow> session\<close> where
  \<open>runNow call task s =
     (let s = s\<lparr>s_task := Some task\<rparr>;
          s = call (t_beforeRun task) NoArgs s
      in emit (Send (t_action task) (t_code task)) s)\<close>

definition runLater :: \<open>task \<Rightarrow> session \<Rightarrow> session\<close> where
  \<open>runLater task s = s\<lparr>s_tasks := s_tasks s @ [task]\<rparr>\<close>

definition run :: \<open>invoker \<Rightarrow> task \<Rightarrow> session \<Rightarrow> session\<close> where
  \<open>run call task s =
     (if s_killed s then s
      else
        let s = emit (LogTask (t_action task) (t_code task)) s in
        if s_task s = None then runNow call task s else runLater task s)\<close>

text \<open>The task that \<open>execute\<close> makes.\<close>

definition executeTask :: \<open>string \<Rightarrow> cb option \<Rightarrow> cb option \<Rightarrow> cb option \<Rightarrow> cb option \<Rightarrow> task\<close>
where
  \<open>executeTask code onExecutionSuccess onError beforeRun afterRun =
     \<lparr>t_action = ''run'', t_code = code, t_onSuccess = map_option Caller onExecutionSuccess,
      t_onError = onError, t_beforeRun = beforeRun, t_afterRun = afterRun\<rparr>\<close>

definition execute ::
  \<open>invoker \<Rightarrow> string \<Rightarrow> cb option \<Rightarrow> cb option \<Rightarrow> cb option \<Rightarrow> cb option \<Rightarrow> session \<Rightarrow> session\<close>
where
  \<open>execute call code onExecutionSuccess onError beforeRun afterRun s =
     run call (executeTask code onExecutionSuccess onError beforeRun afterRun) s\<close>

text \<open>The task that \<open>complete\<close> makes, for an expression that is not \<open>null\<close>.\<close>

definition completeTask ::
  \<open>string \<Rightarrow> int \<Rightarrow> expression \<Rightarrow> cb option \<Rightarrow> cb option \<Rightarrow> cb option \<Rightarrow> cb option \<Rightarrow> task\<close>
where
  \<open>completeTask code cursorPos expression onCompletionSuccess onError beforeRun afterRun =
     \<lparr>t_action = ''getAllPropertyNames'',
      t_code = (if scope expression = [] then ''global'' else scope expression),
      t_onSuccess = Some (CompleteClosure code cursorPos expression onCompletionSuccess),
      t_onError = onError, t_beforeRun = beforeRun, t_afterRun = afterRun\<rparr>\<close>

definition complete ::
  \<open>invoker \<Rightarrow> string \<Rightarrow> int \<Rightarrow> cb option \<Rightarrow> cb option \<Rightarrow> cb option \<Rightarrow> cb option
     \<Rightarrow> session \<Rightarrow> session\<close>
where
  \<open>complete call code cursorPos onCompletionSuccess onError beforeRun afterRun s =
     (case parseExpression code cursorPos of
        None \<Rightarrow>
          call onCompletionSuccess
            (CompletionResult
               \<lparr>c_list = [], c_code = code, c_cursorPos = cursorPos, c_matchedText = [],
                c_cursorStart = cursorPos, c_cursorEnd = cursorPos\<rparr>) s
      | Some expression \<Rightarrow>
          run call
            (completeTask code cursorPos expression onCompletionSuccess onError beforeRun afterRun)
            s)\<close>

text \<open>The two tasks of \<open>inspect\<close>; neither has an \<open>afterRun\<close>.\<close>

definition inspectTask ::
  \<open>string \<Rightarrow> int \<Rightarrow> expression \<Rightarrow> cb option \<Rightarrow> cb option \<Rightarrow> cb option \<Rightarrow> cb option \<Rightarrow> task\<close>
where
  \<open>inspectTask code cursorPos expression onInspectionSuccess onError beforeRun afterRun =
     \<lparr>t_action = ''inspect'', t_code = matchedText expression,
      t_onSuccess = Some (InspectClosure code cursorPos expression onInspectionSuccess
                            onError beforeRun afterRun),
      t_onError = onError, t_beforeRun = beforeRun, t_afterRun = None\<rparr>\<close>

definition scopeTask ::
  \<open>inspection_result \<Rightarrow> expression \<Rightarrow> cb option \<Rightarrow> cb option \<Rightarrow> cb option \<Rightarrow> cb option \<Rightarrow> task\<close>
where
  \<open>scopeTask inspectionResult expression onInspectionSuccess onError beforeRun afterRun =
     \<lparr>t_action = ''inspect'', t_code = scope expression,
      t_onSuccess = Some (ScopeClosure inspectionResult expression onInspectionSuccess afterRun),
      t_onError = onError, t_beforeRun = beforeRun, t_afterRun = None\<rparr>\<close>

definition inspect ::
  \<open>invoker \<Rightarrow> string \<Rightarrow> int \<Rightarrow> cb option \<Rightarrow> cb option \<Rightarrow> cb option \<Rightarrow> cb option
     \<Rightarrow> session \<Rightarrow> session\<close>
where
  \<open>inspect call code cursorPos onInspectionSuccess onError beforeRun afterRun s =
     (case parseExpression code cursorPos of
        None \<Rightarrow>
          call onInspectionSuccess
            (Message (InspectionResult
               \<lparr>inspection =
                  \<lparr>i_string = [], i_type = [], i_constructorList = None, i_length = None,
                   i_code = Some code, i_cursorPos = Some cursorPos, i_matchedText = Some []\<rparr>,
                doc = None\<rparr>)) s
      | Some expression \<Rightarrow>
          run call
            (inspectTask code cursorPos expression onInspectionSuccess onError beforeRun afterRun)
            s)\<close>

text \<open>
  \<open>kill\<close>: \<open>removeAllListeners\<close> takes the listener for messages away, and any listener for
  \<open>"exit"\<close> of an earlier \<open>kill\<close>; \<open>signal || "SIGTERM"\<close> also replaces the empty string.
\<close>

definition kill :: \<open>string option \<Rightarrow> cb option \<Rightarrow> session \<Rightarrow> session\<close> where
  \<open>kill signal killCB s =
     (let s = s\<lparr>s_killed := True\<rparr>;
          s = s\<lparr>messageListener := False, exitListener := None\<rparr>;
          s = emit (KillSignal (case signal of
                                  None \<Rightarrow> ''SIGTERM''
                                | Some sig \<Rightarrow> if sig = [] then ''SIGTERM'' else sig)) s
      in s\<lparr>exitListener := Some killCB\<rparr>)\<close>

lemma execute_cong [fundef_cong]:
  \<open>(\<And>x s'. call beforeRun x s' = call' beforeRun x s') \<Longrightarrow>
   execute call code onExecutionSuccess onError beforeRun afterRun s =
   execute call' code onExecutionSuccess onError beforeRun afterRun s\<close>
  by (simp add: execute_def executeTask_def run_def runNow_def Let_def)

lemma complete_cong [fundef_cong]:
  \<open>(\<And>x s'. call onCompletionSuccess x s' = call' onCompletionSuccess x s') \<Longrightarrow>
   (\<And>x s'. call beforeRun x s' = call' beforeRun x s') \<Longrightarrow>
   complete call code cursorPos onCompletionSuccess onError beforeRun afterRun s =
   complete call' code cursorPos onCompletionSuccess onError beforeRun afterRun s\<close>
  by (simp add: complete_def completeTask_def run_def runNow_def Let_def split: option.splits)

lemma inspect_cong [fundef_cong]:
  \<open>(\<And>x s'. call onInspectionSuccess x s' = call' onInspectionSuccess x s') \<Longrightarrow>
   (\<And>x s'. call beforeRun x s' = call' beforeRun x s') \<Longrightarrow>
   inspect call code cursorPos onInspectionSuccess onError beforeRun afterRun s =
   inspect call' code cursorPos onInspectionSuccess onError beforeRun afterRun s\<close>
  by (simp add: inspect_def inspectTask_def run_def runNow_def Let_def split: option.splits)

text \<open>
  Calling a callback of the caller: \<open>callback f x\<close> is \<open>f(x)\<close>, \<open>invoke f x\<close> is
  \<open>if (f) { f(x) }\<close>, \<open>perform c\<close> is one call on the session made by the caller.
\<close>

fun callback :: \<open>cb \<Rightarrow> arg \<Rightarrow> session \<Rightarrow> session\<close>
  and invoke :: \<open>cb option \<Rightarrow> arg \<Rightarrow> session \<Rightarrow> session\<close>
  and perform :: \<open>cmd \<Rightarrow> session \<Rightarrow> session\<close>
  and performAll :: \<open>cmd list \<Rightarrow> session \<Rightarrow> session\<close>
where
  \<open>callback (Callback l body) x s = performAll body (emit (Called l x) s)\<close>
| \<open>invoke None x s = s\<close>
| \<open>invoke (Some f) x s = callback f x s\<close>
| \<open>perform (Execute code onExecutionSuccess onError beforeRun afterRun) s =
     execute invoke code onExecutionSuccess onError beforeRun afterRun s\<close>
| \<open>perform (Complete code cursorPos onCompletionSuccess onError beforeRun afterRun) s =
     complete invoke code cursorPos onCompletionSuccess onError beforeRun afterRun s\<close>
| \<open>perform (Inspect code cursorPos onInspectionSuccess onError beforeRun afterRun) s =
     inspect invoke code cursorPos onInspectionSuccess onError beforeRun afterRun s\<close>
| \<open>perform (Kill signal killCB) s = kill signal killCB s\<close>
| \<open>performAll [] s = s\<close>
| \<open>performAll (c # cs) s = performAll cs (perform c s)\<close>

text \<open>\<open>invokeCallbacks\<close> of \<open>inspect\<close>.\<close>

definition invokeCallbacks ::
  \<open>cb option \<Rightarrow> cb option \<Rightarrow> inspection_result \<Rightarrow> session \<Rightarrow> session\<close> where
  \<open>invokeCallbacks onInspectionSuccess afterRun inspectionResult s =
     (let s = invoke onInspectionSuccess (Message (InspectionResult inspectionResult)) s
      in invoke afterRun NoArgs s)\<close>

text \<open>
  The loop \<open>for (var i in constructorList)\<close> with its \<open>break\<close>: the documentation to attach,
  if any.
\<close>

fun searchConstructors :: \<open>doc_table \<Rightarrow> string list \<Rightarrow> string \<Rightarrow> documentation option\<close> where
  \<open>searchConstructors table [] sel = None\<close>
| \<open>searchConstructors table (constructorName # rest) sel =
     (case getDocumentation table (constructorName @ ''.prototype.'' @ sel) of
        Some d \<Rightarrow> Some d
      | None \<Rightarrow> searchConstructors table rest sel)\<close>

definition attach :: \<open>documentation option \<Rightarrow> inspection_result \<Rightarrow> inspection_result\<close> where
  \<open>attach d inspectionResult = (case d of None \<Rightarrow> inspectionResult
                                | Some d' \<Rightarrow> inspectionResult\<lparr>doc := Some d'\<rparr>)\<close>

definition getDocumentationAndInvokeCallbacks ::
  \<open>doc_table \<Rightarrow> inspection_result \<Rightarrow> expression \<Rightarrow> cb option \<Rightarrow> cb option \<Rightarrow> cb option
     \<Rightarrow> cb option \<Rightarrow> session \<Rightarrow> session\<close>
where
  \<open>getDocumentationAndInvokeCallbacks table inspectionResult expression
       onInspectionSuccess onError beforeRun afterRun s =
     (if scope expression = [] then
        invokeCallbacks onInspectionSuccess afterRun
          (attach (getDocumentation table (matchedText expression)) inspectionResult) s
      else
        run invoke
          (scopeTask inspectionResult expression onInspectionSuccess onError beforeRun afterRun)
          s)\<close>

text \<open>
  The three assignments to \<open>inspectionResult.inspection\<close> at the start of the first task's
  \<open>onSuccess\<close>.
\<close>

definition stamp :: \<open>string \<Rightarrow> int \<Rightarrow> expression \<Rightarrow> inspection_result \<Rightarrow> inspection_result\<close> where
  \<open>stamp code cursorPos expression result =
     result\<lparr>inspection := (inspection result)
       \<lparr>i_code := Some code, i_cursorPos := Some cursorPos,
        i_matchedText := Some (matchedText expression)\<rparr>\<rparr>\<close>

text \<open>
  \<open>this._task.onSuccess(message)\<close>. A function of \<open>complete\<close> or \<open>inspect\<close> reads \<open>result.names\<close>
  or writes into \<open>result.inspection\<close>; on a message without that part, which the worker never
  sends in reply to the task's action, the call ends in an exception.
\<close>

fun applyClosure :: \<open>doc_table \<Rightarrow> closure \<Rightarrow> message \<Rightarrow> session \<Rightarrow> error + session\<close> where
  \<open>applyClosure table (Caller f) message s = Inr (callback f (Message message) s)\<close>
| \<open>applyClosure table (CompleteClosure code cursorPos expression onCompletionSuccess)
       (NameListResult names) s =
     Inr (invoke onCompletionSuccess
            (CompletionResult (complete_onSuccess code cursorPos expression names)) s)\<close>
| \<open>applyClosure table
       (InspectClosure code cursorPos expression onInspectionSuccess onError beforeRun afterRun)
       (InspectionResult result) s =
     Inr (getDocumentationAndInvokeCallbacks table (stamp code cursorPos expression result)
            expression onInspectionSuccess onError beforeRun afterRun s)\<close>
| \<open>applyClosure table (ScopeClosure inspectionResult expression onInspectionSuccess afterRun)
       (InspectionResult result) s =
     Inr (invokeCallbacks onInspectionSuccess afterRun
            (case i_constructorList (inspection result) of
               None \<Rightarrow> inspectionResult
             | Some constructorList \<Rightarrow>
                 attach (searchConstructors table constructorList (selector expression))
                   inspectionResult) s)\<close>
| \<open>applyClosure table _ _ s = Inl TypeError\<close>

definition isError :: \<open>message \<Rightarrow> bool\<close> where
  \<open>isError message = (case message of ErrorResult _ \<Rightarrow> True | _ \<Rightarrow> False)\<close>

text \<open>
  The end of \<open>_onMessage\<close>, from \<open>if (this._tasks.length > 0)\<close>: the first task of the queue is
  taken out and run, or the session becomes idle.
\<close>

definition advance :: \<open>session \<Rightarrow> session\<close> where
  \<open>advance s =
     (case s_tasks s of
        [] \<Rightarrow> s\<lparr>s_task := None\<rparr>
      | next # rest \<Rightarrow> runNow invoke next (s\<lparr>s_tasks := rest\<rparr>))\<close>

text \<open>
  \<open>_onMessage\<close>. With no task in \<open>_task\<close> the first read of \<open>this._task.onError\<close> (or
  \<open>onSuccess\<close>) is an exception. The later reads of \<open>this._task\<close> give the same task.
\<close>

definition onMessage :: \<open>doc_table \<Rightarrow> message \<Rightarrow> session \<Rightarrow> error + session\<close> where
  \<open>onMessage table message s =
     (let s = emit (LogMessage message) s in
      case s_task s of
        None \<Rightarrow> Inl TypeError
      | Some task \<Rightarrow>
          (case (if isError message then Inr (invoke (t_onError task) (Message message) s)
                 else (case t_onSuccess task of
                         None \<Rightarrow> Inr s
                       | Some f \<Rightarrow> applyClosure table f message s)) of
             Inl err \<Rightarrow> Inl err
           | Inr s \<Rightarrow>
               let s = invoke (t_afterRun task) NoArgs s in Inr (advance s)))\<close>

text \<open>
  What happens to a session: a call by the caller, a message of the worker (heard only while
  the listener is there), the exit of the worker (heard once \<open>kill\<close> has set its listener).
\<close>

datatype input =
    Call cmd
  | WorkerMessage message
  | WorkerExit \<open>int option\<close> \<open>string option\<close>

definition step :: \<open>doc_table \<Rightarrow> input \<Rightarrow> session \<Rightarrow> error + session\<close> where
  \<open>step table i s =
     (case i of
        Call c \<Rightarrow> Inr (perform c s)
      | WorkerMessage message \<Rightarrow>
          if messageListener s then onMessage table message s else Inr s
      | WorkerExit code signal \<Rightarrow>
          (case exitListener s of
             None \<Rightarrow> Inr s
           | Some killCB \<Rightarrow> Inr (invoke killCB (Exit code signal) s)))\<close>

fun steps :: \<open>doc_table \<Rightarrow> input list \<Rightarrow> session \<Rightarrow> error + session\<close> where
  \<open>steps table [] s = Inr s\<close>
| \<open>steps table (i # is) s =
     (case step table i s of Inl err \<Rightarrow> Inl err | Inr s' \<Rightarrow> steps table is s')\<close>

section \<open>What a run shows\<close>

text \<open>The requests sent to the worker, in the order of the \<open>send\<close> calls.\<close>

fun sent :: \<open>event list \<Rightarrow> (string \<times> string) list\<close> where
  \<open>sent [] = []\<close>
| \<open>sent (Send a c # es) = (a, c) # sent es\<close>
| \<open>sent (_ # es) = sent es\<close>

text \<open>The tasks that \<open>_run\<close> has taken (its log line), in this order.\<close>

fun accepted :: \<open>event list \<Rightarrow> (string \<times> string) list\<close> where
  \<open>accepted [] = []\<close>
| \<open>accepted (LogTask a c # es) = (a, c) # accepted es\<close>
| \<open>accepted (_ # es) = accepted es\<close>

definition request :: \<open>task \<Rightarrow> string \<times> string\<close> where
  \<open>request task = (t_action task, t_code task)\<close>

text \<open>
  Requests and replies take turns: \<open>inFlight b es\<close> follows the events \<open>es\<close> from a state in
  which a request is unanswered (\<open>b\<close>) or none is; a request sent while one is unanswered,
  or a reply handled while none is, gives \<open>None\<close>; otherwise the result tells whether a
  request is unanswered at the end.
\<close>

fun inFlight :: \<open>bool \<Rightarrow> event list \<Rightarrow> bool option\<close> where
  \<open>inFlight b [] = Some b\<close>
| \<open>inFlight b (Send a c # es) = (if b then None else inFlight True es)\<close>
| \<open>inFlight b (LogMessage m # es) = (if b then inFlight False es else None)\<close>
| \<open>inFlight b (_ # es) = inFlight b es\<close>

fun silent :: \<open>event \<Rightarrow> bool\<close> where
  \<open>silent (Send a c) = False\<close>
| \<open>silent (LogMessage m) = False\<close>
| \<open>silent _ = True\<close>

text \<open>
  \<open>consistent b q s\<close>: requests and replies have taken turns so far, \<open>b\<close> tells whether a
  request is unanswered, and the tasks taken are those sent, then \<open>q\<close>, then the queue.
\<close>

definition consistent :: \<open>bool \<Rightarrow> (string \<times> string) list \<Rightarrow> session \<Rightarrow> bool\<close> where
  \<open>consistent b q s \<longleftrightarrow>
     inFlight False (trace s) = Some b
     \<and> accepted (trace s) = sent (trace s) @ q @ map request (s_tasks s)\<close>

definition invariant :: \<open>session \<Rightarrow> bool\<close> where
  \<open>invariant s \<longleftrightarrow>
     consistent (s_task s \<noteq> None) [] s \<and> (s_task s = None \<longrightarrow> s_tasks s = [])\<close>

text \<open>
  \<open>extends s s'\<close>: from \<open>s\<close> to \<open>s'\<close> nothing was sent and no reply handled, \<open>_task\<close> is the
  same, and the tasks taken in between are at the end of the queue.
\<close>

definition extends :: \<open>session \<Rightarrow> session \<Rightarrow> bool\<close> where
  \<open>extends s s' \<longleftrightarrow>
     s_task s' = s_task s
     \<and> (\<exists>es ts. trace s' = trace s @ es \<and> list_all silent es
           \<and> s_tasks s' = s_tasks s @ ts \<and> accepted es = map request ts)\<close>

section \<open>Properties of the parser\<close>

lemma slice_from_nat: \<open>slice code (int i) p = drop i (slice code 0 p)\<close>
  by (auto simp: slice_def Let_def drop_take min_def max_def nat_diff_distrib')

lemma slice_0_nat: \<open>k \<le> length s \<Longrightarrow> slice s 0 (int k) = take k s\<close>
  by (simp add: slice_def)

lemma at_last:
  \<open>at s (int (length s) - 1) = Some c \<Longrightarrow> s = slice s 0 (int (length s) - 1) @ [c]\<close>
  by (cases s rule: rev_cases) (auto simp: at_def slice_def nat_diff_distrib' split: if_splits)

lemma at_last2:
  assumes \<open>at s (int (length s) - 2) = Some a\<close> and \<open>at s (int (length s) - 1) = Some b\<close>
  shows \<open>s = slice s 0 (int (length s) - 2) @ [a, b]\<close>
proof (cases s rule: rev_cases)
  case Nil
  with assms show ?thesis by (simp add: at_def)
next
  case (snoc t y)
  show ?thesis
  proof (cases t rule: rev_cases)
    case Nil
    with snoc assms show ?thesis by (simp add: at_def)
  next
    case (snoc u x)
    with \<open>s = t @ [y]\<close> assms show ?thesis
      by (auto simp: at_def slice_def nth_append split: if_splits)
  qed
qed

lemma at_nonempty_last: \<open>s \<noteq> [] \<Longrightarrow> at s (int (length s) - 1) = Some (last s)\<close>
  by (cases s rule: rev_cases) (auto simp: at_def)

lemma exec_anchoredD:
  \<open>exec_anchored p s = Some (i, m) \<Longrightarrow> i \<le> length s \<and> m = drop i s \<and> p m\<close>
  by (auto simp del: upt_Suc simp: exec_anchored_def find_Some_iff split: option.splits)

lemma complexIdentifier_nonempty: \<open>complexIdentifier m \<Longrightarrow> m \<noteq> []\<close>
  by (auto simp: complexIdentifier_def)

text \<open>The second half of the parser, on a prefix that ends in an operator and a selector.\<close>

lemma parseScope_Some:
  assumes \<open>parseScope code p ex l r sel = Some e\<close> and \<open>l \<noteq> []\<close>
    and \<open>slice code 0 p = ex @ l @ sel\<close>
  shows \<open>matchedText e = scope e @ leftOp e @ selector e
     \<and> suffix (matchedText e) (slice code 0 p)
     \<and> scope e \<noteq> [] \<and> leftOp e = l \<and> rightOp e = r \<and> selector e = sel\<close>
proof -
  from assms(1,2) obtain i m where ex: \<open>complexIdentifierRE_exec ex = Some (i, m)\<close>
    and e: \<open>e = \<lparr>matchedText = slice code (int i) p, scope = m, leftOp = l,
                  selector = sel, rightOp = r\<rparr>\<close>
    by (auto simp: parseScope_def split: option.splits)
  from ex have i: \<open>i \<le> length ex\<close> and m: \<open>m = drop i ex\<close> and \<open>m \<noteq> []\<close>
    using exec_anchoredD [of complexIdentifier ex i m]
    by (auto simp: complexIdentifierRE_exec_def dest: complexIdentifier_nonempty)
  have \<open>slice code (int i) p = m @ l @ sel\<close>
    using i m assms(3) by (simp add: slice_from_nat)
  moreover have \<open>slice code 0 p = take i ex @ (m @ l @ sel)\<close>
    using m assms(3) by simp
  ultimately show ?thesis using e \<open>m \<noteq> []\<close> by (auto simp: suffix_def)
qed

text \<open>
  The three shapes of a result of the parser: all empty; a selector alone; a scope, one of
  the three operators and a selector.
\<close>

lemma parseExpression_cases:
  assumes \<open>parseExpression code p = Some e\<close>
  shows \<open>e = \<lparr>matchedText = [], scope = [], leftOp = [], selector = [], rightOp = []\<rparr>
    \<or> (scope e = [] \<and> leftOp e = [] \<and> rightOp e = [] \<and> matchedText e = selector e
         \<and> suffix (selector e) (slice code 0 p))
    \<or> (scope e \<noteq> []
         \<and> (leftOp e, rightOp e) \<in> {(''.'', []), ([CHR ''['', dquote], [dquote, CHR '']'']),
                                      ([CHR ''['', squote], [squote, CHR '']''])}
         \<and> matchedText e = scope e @ leftOp e @ selector e
         \<and> suffix (matchedText e) (slice code 0 p))\<close>
proof -
  define pre where \<open>pre = slice code 0 p\<close>
  define sx where \<open>sx = (case simpleIdentifierRE_exec pre of
                 None \<Rightarrow> ([], pre)
               | Some (index, m) \<Rightarrow> (m, slice pre 0 (int index)))\<close>
  define sel where \<open>sel = fst sx\<close>
  define ex where \<open>ex = snd sx\<close>
  have split: \<open>pre = ex @ sel\<close>
  proof (cases \<open>simpleIdentifierRE_exec pre\<close>)
    case None
    then show ?thesis by (simp add: sx_def sel_def ex_def)
  next
    case (Some a)
    obtain i m where \<open>a = (i, m)\<close> by (cases a)
    with Some exec_anchoredD [of identifierWord pre i m] show ?thesis
      by (simp add: sx_def sel_def ex_def simpleIdentifierRE_exec_def slice_0_nat)
  qed
  show ?thesis
  proof (cases \<open>pre = [] \<or> whitespaceRE_test (at pre (int (length pre) - 1))\<close>)
    case True
    with assms show ?thesis by (auto simp: parseExpression_def pre_def)
  next
    case False
    let ?n = \<open>int (length ex)\<close>
    consider (dot) \<open>at ex (?n - 1) = Some CHR ''.''\<close>
      | (dq) \<open>at ex (?n - 1) \<noteq> Some CHR ''.''\<close>
          \<open>at ex (?n - 2) = Some CHR ''[''\<close> \<open>at ex (?n - 1) = Some dquote\<close>
      | (sq) \<open>at ex (?n - 1) \<noteq> Some CHR ''.''\<close>
          \<open>\<not> (at ex (?n - 2) = Some CHR ''['' \<and> at ex (?n - 1) = Some dquote)\<close>
          \<open>at ex (?n - 2) = Some CHR ''[''\<close> \<open>at ex (?n - 1) = Some squote\<close>
      | (none) \<open>at ex (?n - 1) \<noteq> Some CHR ''.''\<close>
          \<open>\<not> (at ex (?n - 2) = Some CHR ''['' \<and> at ex (?n - 1) = Some dquote)\<close>
          \<open>\<not> (at ex (?n - 2) = Some CHR ''['' \<and> at ex (?n - 1) = Some squote)\<close>
      by blast
    then show ?thesis
    proof cases
      case dot
      with assms False
      have \<open>parseScope code p (slice ex 0 (?n - 1)) ''.'' [] sel = Some e\<close>
        by (simp add: parseExpression_def pre_def [symmetric] Let_def sx_def [symmetric]
            case_prod_unfold sel_def ex_def)
      moreover from dot split have \<open>slice code 0 p = slice ex 0 (?n - 1) @ ''.'' @ sel\<close>
        using at_last [of ex \<open>CHR ''.''\<close>] by (simp add: pre_def)
      ultimately show ?thesis using parseScope_Some by fastforce
    next
      case dq
      with assms False
      have \<open>parseScope code p (slice ex 0 (?n - 2)) [CHR ''['', dquote] [dquote, CHR '']''] sel
              = Some e\<close>
        by (simp add: parseExpression_def pre_def [symmetric] Let_def sx_def [symmetric]
            case_prod_unfold sel_def ex_def)
      moreover from dq split
      have \<open>slice code 0 p = slice ex 0 (?n - 2) @ [CHR ''['', dquote] @ sel\<close>
        using at_last2 [of ex \<open>CHR ''[''\<close> dquote] by (simp add: pre_def)
      ultimately show ?thesis using parseScope_Some by fastforce
    next
      case sq
      with assms False
      have \<open>parseScope code p (slice ex 0 (?n - 2)) [CHR ''['', squote] [squote, CHR '']''] sel
              = Some e\<close>
        by (simp add: parseExpression_def pre_def [symmetric] Let_def sx_def [symmetric]
            case_prod_unfold sel_def ex_def)
      moreover from sq split
      have \<open>slice code 0 p = slice ex 0 (?n - 2) @ [CHR ''['', squote] @ sel\<close>
        using at_last2 [of ex \<open>CHR ''[''\<close> squote] by (simp add: pre_def)
      ultimately show ?thesis using parseScope_Some by fastforce
    next
      case none
      with assms False
      have \<open>e = \<lparr>matchedText = slice code (int (length ex)) p, scope = [],
                  leftOp = [], selector = sel, rightOp = []\<rparr>\<close>
        by (auto simp: parseExpression_def pre_def [symmetric] Let_def sx_def [symmetric]
            case_prod_unfold sel_def ex_def split: if_splits)
      moreover have \<open>slice code (int (length ex)) p = sel\<close>
        using split by (simp add: slice_from_nat pre_def [symmetric])
      ultimately show ?thesis using split by (auto simp: suffix_def pre_def)
    qed
  qed
qed

lemma parseExpression_scope_empty:
  \<open>parseExpression code p = Some e \<Longrightarrow> scope e = [] \<Longrightarrow> leftOp e = [] \<and> rightOp e = []\<close>
  using parseExpression_cases [of code p e] by auto

lemma parse_foo_ba:
  \<open>parseExpression ''foo.ba'' 6 =
     Some \<lparr>matchedText = ''foo.ba'', scope = ''foo'', leftOp = ''.'', selector = ''ba'',
           rightOp = []\<rparr>\<close>
  by code_simp

text \<open>
  C4. Where the text before the cursor is empty or ends in a whitespace character,
  \<open>parseExpression\<close> returns the expression whose five fields are all the empty string; it
  does not return \<open>null\<close> there.
\<close>

theorem parseExpression_boundary:
  \<open>slice code 0 cursorPos = [] \<or> whitespace (last (slice code 0 cursorPos)) \<Longrightarrow>
   parseExpression code cursorPos =
     Some \<lparr>matchedText = [], scope = [], leftOp = [], selector = [], rightOp = []\<rparr>\<close>
  by (auto simp: parseExpression_def Let_def at_nonempty_last whitespaceRE_test_def)

theorem parseExpression_boundary_witness:
  \<open>whitespace (last (slice ''foo '' 0 4)) \<and>
   parseExpression ''foo '' 4 =
     Some \<lparr>matchedText = [], scope = [], leftOp = [], selector = [], rightOp = []\<rparr> \<and>
   slice ''foo'' 0 0 = [] \<and>
   parseExpression ''foo'' 0 =
     Some \<lparr>matchedText = [], scope = [], leftOp = [], selector = [], rightOp = []\<rparr>\<close>
proof -
  have a: \<open>whitespace (last (slice ''foo '' 0 4))\<close>
    by (simp add: slice_def whitespace_def)
  have b: \<open>slice ''foo'' 0 0 = []\<close>
    by (simp add: slice_def)
  show ?thesis
    using a b parseExpression_boundary [of \<open>''foo ''\<close> 4, OF disjI2, OF a]
      parseExpression_boundary [of \<open>''foo''\<close> 0, OF disjI1, OF b]
    by simp
qed

text \<open>
  C10. Where \<open>parseExpression\<close> returns an expression, its \<open>matchedText\<close> is \<open>scope\<close>, \<open>leftOp\<close>
  and \<open>selector\<close> one after the other, and it is the end of the text before the cursor; so a
  scope that is not empty comes with an operator that is not empty.
\<close>

theorem parseExpression_matchedText:
  \<open>parseExpression code cursorPos = Some e \<Longrightarrow>
   matchedText e = scope e @ leftOp e @ selector e
   \<and> suffix (matchedText e) (slice code 0 cursorPos)
   \<and> (scope e \<noteq> [] \<longrightarrow> leftOp e \<noteq> [])\<close>
  using parseExpression_cases [of code cursorPos e] by auto

theorem parseExpression_matchedText_witness:
  \<open>parseExpression ''foo.ba'' 6 =
     Some \<lparr>matchedText = ''foo.ba'', scope = ''foo'', leftOp = ''.'', selector = ''ba'',
           rightOp = []\<rparr>
   \<and> ''foo.ba'' = ''foo'' @ ''.'' @ ''ba''
   \<and> suffix ''foo.ba'' (slice ''foo.ba'' 0 6)\<close>
  using parseExpression_matchedText [OF parse_foo_ba] parse_foo_ba by simp

section \<open>Properties of completion\<close>

lemma lastIndexOf0_prefix: \<open>lastIndexOf0 e m = 0 \<longleftrightarrow> prefix m e\<close>
  by (auto simp: lastIndexOf0_def prefix_def) (metis append_eq_conv_conj)

text \<open>The list after the filter and the wrapping.\<close>

lemma complete_onSuccess_list:
  \<open>c_list (complete_onSuccess code cursorPos e names) =
     (let candidates = (if scope e = [] then names @ javascriptKeywords else names);
          kept = filter (prefix (selector e)) candidates
      in if scope e @ leftOp e = [] \<and> rightOp e = [] then kept
         else map (\<lambda>w. scope e @ leftOp e @ w @ rightOp e) kept)\<close>
  by (auto simp: complete_onSuccess_def Let_def case_prod_unfold lastIndexOf0_prefix
      split: list.splits)

lemma shortest_foldl:
  \<open>\<exists>pre post. (x :: string) # xs = pre @ [foldl (\<lambda>p c. if length p \<le> length c then p else c) x xs] @ post
     \<and> (\<forall>w\<in>set pre. length (foldl (\<lambda>p c. if length p \<le> length c then p else c) x xs) < length w)
     \<and> (\<forall>w\<in>set post. length (foldl (\<lambda>p c. if length p \<le> length c then p else c) x xs) \<le> length w)\<close>
proof (induction xs rule: rev_induct)
  case Nil
  have \<open>[x] = [] @ [x] @ [] \<and> (\<forall>w\<in>set ([] :: string list). length x < length w)
     \<and> (\<forall>w\<in>set ([] :: string list). length x \<le> length w)\<close> by simp
  then show ?case unfolding foldl_Nil by (intro exI)
next
  case (snoc y xs)
  define s where \<open>s = foldl (\<lambda>p c :: string. if length p \<le> length c then p else c) x xs\<close>
  from snoc obtain pre post where d: \<open>x # xs = pre @ [s] @ post\<close>
    and pre: \<open>\<forall>w\<in>set pre. length s < length w\<close>
    and post: \<open>\<forall>w\<in>set post. length s \<le> length w\<close>
    unfolding s_def by blast
  have step: \<open>foldl (\<lambda>p c :: string. if length p \<le> length c then p else c) x (xs @ [y]) =
      (if length s \<le> length y then s else y)\<close>
    by (simp add: s_def)
  show ?case
  proof (cases \<open>length s \<le> length y\<close>)
    case True
    have \<open>x # xs @ [y] = pre @ [s] @ (post @ [y])\<close> using d by simp
    moreover have \<open>\<forall>w\<in>set (post @ [y]). length s \<le> length w\<close> using post True by simp
    ultimately have \<open>x # xs @ [y] = pre @ [s] @ (post @ [y])
        \<and> (\<forall>w\<in>set pre. length s < length w) \<and> (\<forall>w\<in>set (post @ [y]). length s \<le> length w)\<close>
      using pre by simp
    then show ?thesis unfolding step if_P [OF True] by (intro exI)
  next
    case False
    have \<open>x # xs @ [y] = (pre @ [s] @ post) @ [y] @ []\<close> using d by simp
    moreover have \<open>\<forall>w\<in>set (pre @ [s] @ post). length y < length w\<close>
      using pre post False by fastforce
    moreover have \<open>\<forall>w\<in>set ([] :: string list). length y \<le> length w\<close> by simp
    ultimately have \<open>x # xs @ [y] = (pre @ [s] @ post) @ [y] @ []
        \<and> (\<forall>w\<in>set (pre @ [s] @ post). length y < length w)
        \<and> (\<forall>w\<in>set ([] :: string list). length y \<le> length w)\<close>
      by simp
    then show ?thesis unfolding step if_not_P [OF False] by (intro exI)
  qed
qed

lemma scan_common_prefix:
  \<open>0 \<le> cursorEnd \<Longrightarrow>
   scan shortestMatch code i cursorEnd =
     cursorEnd + int (length (longest_common_prefix (drop i shortestMatch)
                                (drop (nat cursorEnd) code)))\<close>
proof (induction shortestMatch code i cursorEnd rule: scan.induct)
  case (1 shortestMatch code i cursorEnd)
  show ?case
  proof (cases \<open>i < length shortestMatch \<and> cursorEnd < int (length code)\<close>)
    case False
    then have \<open>drop i shortestMatch = [] \<or> drop (nat cursorEnd) code = []\<close>
      using 1(2) by auto
    then have \<open>longest_common_prefix (drop i shortestMatch) (drop (nat cursorEnd) code) = []\<close>
      by (cases \<open>drop i shortestMatch\<close>) auto
    with False show ?thesis by (auto simp: scan.simps [of shortestMatch code i cursorEnd])
  next
    case True
    then have d1: \<open>drop i shortestMatch = shortestMatch ! i # drop (Suc i) shortestMatch\<close>
      by (simp add: Cons_nth_drop_Suc)
    from True 1(2) have \<open>nat cursorEnd < length code\<close> by linarith
    then have d2: \<open>drop (nat cursorEnd) code =
        code ! nat cursorEnd # drop (Suc (nat cursorEnd)) code\<close>
      by (simp add: Cons_nth_drop_Suc)
    show ?thesis
    proof (cases \<open>charAt shortestMatch (int i) \<noteq> charAt code cursorEnd\<close>)
      case neq: True
      with True 1(2) have \<open>shortestMatch ! i \<noteq> code ! nat cursorEnd\<close>
        by (simp add: charAt_def)
      with True neq show ?thesis
        by (simp add: scan.simps [of shortestMatch code i cursorEnd] d1 d2)
    next
      case eq: False
      with True 1(2) have same: \<open>shortestMatch ! i = code ! nat cursorEnd\<close>
        by (simp add: charAt_def)
      have \<open>scan shortestMatch code (Suc i) (cursorEnd + 1) = cursorEnd + 1 +
          int (length (longest_common_prefix (drop (Suc i) shortestMatch)
                                (drop (nat (cursorEnd + 1)) code)))\<close>
        using 1(1) [OF True] eq 1(2) by simp
      moreover have \<open>nat (cursorEnd + 1) = Suc (nat cursorEnd)\<close> using 1(2) by simp
      ultimately show ?thesis using True eq same
        by (simp add: scan.simps [of shortestMatch code i cursorEnd] d1 d2)
    qed
  qed
qed

lemma find_upt_least:
  assumes \<open>find P [0 ..< n] = Some i\<close>
  shows \<open>i < n \<and> P i \<and> (\<forall>j<i. \<not> P j)\<close>
proof -
  from assms obtain k where k: \<open>k < length [0 ..< n]\<close> \<open>P ([0 ..< n] ! k)\<close> \<open>i = [0 ..< n] ! k\<close>
    \<open>\<forall>j<k. \<not> P ([0 ..< n] ! j)\<close>
    unfolding find_Some_iff by blast
  from k(1) have kn: \<open>k < n\<close> by simp
  then have ik: \<open>i = k\<close> using k(3) by simp
  have \<open>\<forall>j<k. \<not> P j\<close>
  proof (intro allI impI)
    fix j assume \<open>j < k\<close>
    with k(4) kn have \<open>\<not> P ([0 ..< n] ! j)\<close> and \<open>j < n\<close> by auto
    then show \<open>\<not> P j\<close> by simp
  qed
  with k(2) kn ik show ?thesis by simp
qed

lemma indexOf_found:
  assumes \<open>code = a @ m @ b\<close>
  shows \<open>0 \<le> indexOf code m \<and> take (length m) (drop (nat (indexOf code m)) code) = m
     \<and> (\<forall>j<nat (indexOf code m). take (length m) (drop j code) \<noteq> m)\<close>
proof -
  define P where \<open>P = (\<lambda>i. take (length m) (drop i code) = m)\<close>
  have \<open>length a \<in> set [0 ..< Suc (length code)]\<close> using assms by simp
  moreover have \<open>P (length a)\<close> using assms by (simp add: P_def)
  ultimately have \<open>find P [0 ..< Suc (length code)] \<noteq> None\<close>
    unfolding find_None_iff by blast
  then obtain i where f: \<open>find P [0 ..< Suc (length code)] = Some i\<close> by blast
  from find_upt_least [OF f] have \<open>P i\<close> and \<open>\<forall>j<i. \<not> P j\<close> by blast+
  moreover from f have \<open>indexOf code m = int i\<close>
    unfolding indexOf_def P_def by simp
  ultimately show ?thesis by (simp add: P_def)
qed


lemma slice_0_take: \<open>\<exists>k. slice code 0 p = take k code\<close>
  by (auto simp: slice_def Let_def)

lemma matchedText_in_code:
  assumes \<open>parseExpression code p = Some e\<close>
  shows \<open>\<exists>a b. code = a @ matchedText e @ b\<close>
proof -
  from parseExpression_cases [OF assms] have \<open>suffix (matchedText e) (slice code 0 p)\<close>
    by (auto simp: suffix_def)
  then obtain a where \<open>slice code 0 p = a @ matchedText e\<close> by (auto simp: suffix_def)
  moreover obtain k where \<open>slice code 0 p = take k code\<close> using slice_0_take by blast
  ultimately have \<open>code = a @ matchedText e @ drop k code\<close>
    by (metis append_assoc append_take_drop_id)
  then show ?thesis by blast
qed

lemma complete_onSuccess_cursor:
  \<open>(c_cursorStart (complete_onSuccess code cursorPos e names),
    c_cursorEnd (complete_onSuccess code cursorPos e names)) =
     (case c_list (complete_onSuccess code cursorPos e names) of
        [] \<Rightarrow> (cursorPos, cursorPos)
      | p # cs \<Rightarrow>
          (indexOf code (matchedText e),
           scan (foldl (\<lambda>p c. if length p \<le> length c then p else c) p cs) code 0
             (indexOf code (matchedText e))))\<close>
  unfolding complete_onSuccess_def Let_def case_prod_unfold
  by (simp split del: if_split)

text \<open>
  C6. For a call of \<open>complete\<close> whose expression is not \<open>null\<close>, on success: if the final list
  is empty, \<open>cursorStart\<close> and \<open>cursorEnd\<close> are \<open>cursorPos\<close>; otherwise \<open>cursorStart\<close> is the
  index of \<open>matchedText\<close> in \<open>code\<close> (the least place where it occurs), and \<open>cursorEnd\<close> is
  \<open>cursorStart\<close> plus the number of characters on which \<open>code\<close>, read from \<open>cursorStart\<close>,
  agrees with the shortest entry of the list, the first one among entries of the same
  length, up to the first difference or the end of either.
\<close>

theorem complete_cursor_range:
  assumes \<open>parseExpression code cursorPos = Some e\<close>
  shows \<open>let r = complete_onSuccess code cursorPos e names in
     (c_list r = [] \<longrightarrow> c_cursorStart r = cursorPos \<and> c_cursorEnd r = cursorPos) \<and>
     (c_list r \<noteq> [] \<longrightarrow>
        c_cursorStart r = indexOf code (matchedText e) \<and> 0 \<le> c_cursorStart r \<and>
        take (length (matchedText e)) (drop (nat (c_cursorStart r)) code) = matchedText e \<and>
        (\<forall>j<nat (c_cursorStart r). take (length (matchedText e)) (drop j code) \<noteq> matchedText e) \<and>
        (\<exists>pre shortest post.
           c_list r = pre @ [shortest] @ post \<and>
           (\<forall>w\<in>set pre. length shortest < length w) \<and>
           (\<forall>w\<in>set post. length shortest \<le> length w) \<and>
           c_cursorEnd r = c_cursorStart r +
             int (length (longest_common_prefix shortest (drop (nat (c_cursorStart r)) code)))))\<close>
proof -
  define r where \<open>r = complete_onSuccess code cursorPos e names\<close>
  define start where \<open>start = indexOf code (matchedText e)\<close>
  from matchedText_in_code [OF assms] obtain a b where \<open>code = a @ matchedText e @ b\<close> by blast
  from indexOf_found [OF this] have start: \<open>0 \<le> start\<close>
    \<open>take (length (matchedText e)) (drop (nat start) code) = matchedText e\<close>
    \<open>\<forall>j<nat start. take (length (matchedText e)) (drop j code) \<noteq> matchedText e\<close>
    unfolding start_def by blast+
  have cur: \<open>(c_cursorStart r, c_cursorEnd r) =
     (case c_list r of
        [] \<Rightarrow> (cursorPos, cursorPos)
      | p # cs \<Rightarrow>
          (start, scan (foldl (\<lambda>p c. if length p \<le> length c then p else c) p cs) code 0 start))\<close>
    unfolding r_def start_def by (rule complete_onSuccess_cursor)
  have empty: \<open>c_list r = [] \<longrightarrow> c_cursorStart r = cursorPos \<and> c_cursorEnd r = cursorPos\<close>
    using cur by auto
  have nonempty: \<open>c_cursorStart r = start \<and>
        (\<exists>pre shortest post.
           c_list r = pre @ [shortest] @ post \<and>
           (\<forall>w\<in>set pre. length shortest < length w) \<and>
           (\<forall>w\<in>set post. length shortest \<le> length w) \<and>
           c_cursorEnd r = start +
             int (length (longest_common_prefix shortest (drop (nat start) code))))\<close>
    if \<open>c_list r \<noteq> []\<close>
  proof -
    from that obtain p cs where l: \<open>c_list r = p # cs\<close> by (cases \<open>c_list r\<close>) auto
    define sm where \<open>sm = foldl (\<lambda>p c :: string. if length p \<le> length c then p else c) p cs\<close>
    from cur l have cs: \<open>c_cursorStart r = start\<close> and ce: \<open>c_cursorEnd r = scan sm code 0 start\<close>
      by (simp_all add: sm_def)
    from shortest_foldl [of p cs] obtain pre post where
      \<open>p # cs = pre @ [sm] @ post\<close> \<open>\<forall>w\<in>set pre. length sm < length w\<close>
      \<open>\<forall>w\<in>set post. length sm \<le> length w\<close>
      unfolding sm_def by blast
    moreover have \<open>c_cursorEnd r = start +
        int (length (longest_common_prefix sm (drop (nat start) code)))\<close>
      using scan_common_prefix [OF start(1), of sm code 0] ce by simp
    ultimately show ?thesis using cs l by metis
  qed
  show ?thesis
    unfolding Let_def r_def [symmetric] start_def [symmetric]
    using empty nonempty start by blast
qed

lemma parse_a_b:
  \<open>parseExpression ''a; a.b'' 6 =
     Some \<lparr>matchedText = ''a.b'', scope = ''a'', leftOp = ''.'', selector = ''b'', rightOp = []\<rparr>\<close>
  by code_simp

theorem complete_cursor_range_witness:
  \<open>parseExpression ''a; a.b'' 6 =
     Some \<lparr>matchedText = ''a.b'', scope = ''a'', leftOp = ''.'', selector = ''b'', rightOp = []\<rparr> \<and>
   c_list (complete_onSuccess ''a; a.b'' 6
     \<lparr>matchedText = ''a.b'', scope = ''a'', leftOp = ''.'', selector = ''b'', rightOp = []\<rparr>
     [''b'', ''bc'']) = [''a.b'', ''a.bc''] \<and>
   c_cursorStart (complete_onSuccess ''a; a.b'' 6
     \<lparr>matchedText = ''a.b'', scope = ''a'', leftOp = ''.'', selector = ''b'', rightOp = []\<rparr>
     [''b'', ''bc'']) = indexOf ''a; a.b'' ''a.b'' \<and>
   indexOf ''a; a.b'' ''a.b'' = 3\<close>
proof -
  have l: \<open>c_list (complete_onSuccess ''a; a.b'' 6
     \<lparr>matchedText = ''a.b'', scope = ''a'', leftOp = ''.'', selector = ''b'', rightOp = []\<rparr>
     [''b'', ''bc'']) = [''a.b'', ''a.bc'']\<close>
    by code_simp
  have i: \<open>indexOf ''a; a.b'' ''a.b'' = 3\<close>
    by code_simp
  show ?thesis
    using complete_cursor_range [OF parse_a_b, of \<open>[''b'', ''bc'']\<close>] parse_a_b l i
    by (simp add: Let_def)
qed

text \<open>
  C5. For a call of \<open>complete\<close> whose expression has the empty scope, the list handed to
  \<open>onCompletionSuccess\<close> is made from the names of the worker followed by all of
  \<open>javascriptKeywords\<close>, in this order, of which the entries that start with the selector are
  kept; with the empty selector and the names \<open>["parseInt"]\<close> it is \<open>"parseInt"\<close> followed
  by the reserved words.
\<close>

theorem complete_global_candidates:
  \<open>parseExpression code cursorPos = Some e \<Longrightarrow> scope e = [] \<Longrightarrow>
   applyClosure table (CompleteClosure code cursorPos e onCompletionSuccess)
       (NameListResult names) s =
     Inr (invoke onCompletionSuccess
            (CompletionResult (complete_onSuccess code cursorPos e names)) s)
   \<and> c_list (complete_onSuccess code cursorPos e names) =
       filter (prefix (selector e)) (names @ javascriptKeywords)
   \<and> (selector e = [] \<longrightarrow>
        c_list (complete_onSuccess code cursorPos e [''parseInt'']) =
          ''parseInt'' # javascriptKeywords)\<close>
  using parseExpression_scope_empty [of code cursorPos e]
  by (simp add: complete_onSuccess_list)

lemma parse_empty:
  \<open>parseExpression [] 0 =
     Some \<lparr>matchedText = [], scope = [], leftOp = [], selector = [], rightOp = []\<rparr>\<close>
  by code_simp

theorem complete_global_candidates_witness:
  \<open>parseExpression [] 0 =
     Some \<lparr>matchedText = [], scope = [], leftOp = [], selector = [], rightOp = []\<rparr>
   \<and> c_list (complete_onSuccess [] 0
        \<lparr>matchedText = [], scope = [], leftOp = [], selector = [], rightOp = []\<rparr>
        [''parseInt'']) = ''parseInt'' # javascriptKeywords\<close>
  using complete_global_candidates [OF parse_empty, of \<open>\<lambda>_. None\<close> None \<open>[''parseInt'']\<close> Session]
    parse_empty
  by simp

text \<open>
  C3, as amended. For a call of \<open>complete\<close> whose expression has a scope that is not empty and
  the selector \<open>"foo"\<close>, when the worker answers with the names \<open>["foo", "foobar", "bar"]\<close>,
  the list handed to \<open>onCompletionSuccess\<close> has the two entries \<open>scope + leftOp + "foo" +
  rightOp\<close> and \<open>scope + leftOp + "foobar" + rightOp\<close>, in this order.
\<close>

theorem complete_filter_wrapped:
  \<open>scope e \<noteq> [] \<Longrightarrow> selector e = ''foo'' \<Longrightarrow>
   applyClosure table (CompleteClosure code cursorPos e onCompletionSuccess)
       (NameListResult [''foo'', ''foobar'', ''bar'']) s =
     Inr (invoke onCompletionSuccess
            (CompletionResult
               (complete_onSuccess code cursorPos e [''foo'', ''foobar'', ''bar''])) s)
   \<and> c_list (complete_onSuccess code cursorPos e [''foo'', ''foobar'', ''bar'']) =
       [scope e @ leftOp e @ ''foo'' @ rightOp e, scope e @ leftOp e @ ''foobar'' @ rightOp e]\<close>
  by (simp add: complete_onSuccess_list)

theorem complete_filter_wrapped_witness:
  \<open>scope \<lparr>matchedText = ''x.foo'', scope = ''x'', leftOp = ''.'', selector = ''foo'',
           rightOp = []\<rparr> \<noteq> []
   \<and> c_list (complete_onSuccess ''x.foo'' 5
        \<lparr>matchedText = ''x.foo'', scope = ''x'', leftOp = ''.'', selector = ''foo'',
          rightOp = []\<rparr> [''foo'', ''foobar'', ''bar'']) = [''x.foo'', ''x.foobar'']\<close>
  using complete_filter_wrapped [of
      \<open>\<lparr>matchedText = ''x.foo'', scope = ''x'', leftOp = ''.'', selector = ''foo'',
          rightOp = []\<rparr>\<close> \<open>\<lambda>_. None\<close> \<open>''x.foo''\<close> 5 None Session]
  by simp

text \<open>
  C3, as stated, fails: for \<open>code = "x.foo"\<close> and the cursor at its end the list is
  \<open>["x.foo", "x.foobar"]\<close>, not \<open>["foo", "foobar"]\<close>.
\<close>

theorem complete_filter_counterexample:
  \<open>parseExpression ''x.foo'' 5 =
     Some \<lparr>matchedText = ''x.foo'', scope = ''x'', leftOp = ''.'', selector = ''foo'',
           rightOp = []\<rparr>
   \<and> scope \<lparr>matchedText = ''x.foo'', scope = ''x'', leftOp = ''.'', selector = ''foo'',
             rightOp = []\<rparr> \<noteq> []
   \<and> selector \<lparr>matchedText = ''x.foo'', scope = ''x'', leftOp = ''.'', selector = ''foo'',
                rightOp = []\<rparr> = ''foo''
   \<and> c_list (complete_onSuccess ''x.foo'' 5
        \<lparr>matchedText = ''x.foo'', scope = ''x'', leftOp = ''.'', selector = ''foo'',
          rightOp = []\<rparr> [''foo'', ''foobar'', ''bar'']) \<noteq> [''foo'', ''foobar'']\<close>
proof -
  have \<open>parseExpression ''x.foo'' 5 =
     Some \<lparr>matchedText = ''x.foo'', scope = ''x'', leftOp = ''.'', selector = ''foo'',
           rightOp = []\<rparr>\<close>
    by code_simp
  moreover have \<open>c_list (complete_onSuccess ''x.foo'' 5
        \<lparr>matchedText = ''x.foo'', scope = ''x'', leftOp = ''.'', selector = ''foo'',
          rightOp = []\<rparr> [''foo'', ''foobar'', ''bar'']) = [''x.foo'', ''x.foobar'']\<close>
    by (simp add: complete_onSuccess_list)
  ultimately show ?thesis by simp
qed

section \<open>Properties of the documentation lookup\<close>

lemma replacePrefix_RangeError:
  \<open>replacePrefix ''Error'' ''Error.'' ''RangeError.prototype.toString'' =
     ''Error.prototype.toString''\<close>
  by code_simp

text \<open>
  The rewriting of an error name: without an entry of its own,
  \<open>RangeError.prototype.toString\<close> gets the entry of \<open>Error.prototype.toString\<close>.
\<close>

lemma getDocumentation_RangeError:
  \<open>table ''RangeError.prototype.toString'' = None \<Longrightarrow>
   table ''Error.prototype.toString'' = Some d \<Longrightarrow>
   getDocumentation table ''RangeError.prototype.toString'' = Some d\<close>
  by (simp add: getDocumentation_def Let_def replacePrefix_RangeError)

text \<open>
  The pattern ends in a dot that is not escaped: a name with another character in that
  place is rewritten too.
\<close>

lemma replacePrefix_any_character:
  \<open>replacePrefix ''Error'' ''Error.'' ''RangeErrorXprototype'' = ''Error.prototype''\<close>
  by code_simp

text \<open>
  C8 says that a name without an entry is looked up again with its prefix \<open><Anything>Array.\<close>
  rewritten to \<open>TypedArray.\<close>. The pattern of the source asks for letters alone before
  \<open>Array\<close>, and the names of the typed arrays have a digit there: \<open>Int8Array.prototype.length\<close>
  is not rewritten, and the lookup fails although the table has
  \<open>TypedArray.prototype.length\<close>.
\<close>

theorem getDocumentation_Int8Array:
  \<open>replacePrefix ''Array'' ''TypedArray.'' ''Int8Array.prototype.length'' =
     ''Int8Array.prototype.length''
   \<and> getDocumentation
       (Map.empty(''TypedArray.prototype.length'' \<mapsto>
          \<lparr>description = ''length'', usage = None, url = ''mdn''\<rparr>))
       ''Int8Array.prototype.length'' = None\<close>
proof -
  have a: \<open>replacePrefix ''Array'' ''TypedArray.'' ''Int8Array.prototype.length'' =
     ''Int8Array.prototype.length''\<close>
    by code_simp
  have e: \<open>replacePrefix ''Error'' ''Error.'' ''Int8Array.prototype.length'' =
     ''Int8Array.prototype.length''\<close>
    by code_simp
  show ?thesis by (simp add: getDocumentation_def Let_def a e)
qed

section \<open>Properties of the session\<close>

lemma sent_append: \<open>sent (xs @ ys) = sent xs @ sent ys\<close>
  by (induction xs rule: sent.induct) auto

lemma accepted_append: \<open>accepted (xs @ ys) = accepted xs @ accepted ys\<close>
  by (induction xs rule: accepted.induct) auto

lemma inFlight_append:
  \<open>inFlight b (xs @ ys) = (case inFlight b xs of None \<Rightarrow> None | Some b' \<Rightarrow> inFlight b' ys)\<close>
  by (induction b xs rule: inFlight.induct) auto

lemma silent_sent: \<open>list_all silent es \<Longrightarrow> sent es = []\<close>
  by (induction es rule: sent.induct) auto

lemma silent_inFlight: \<open>list_all silent es \<Longrightarrow> inFlight b es = Some b\<close>
  by (induction b es rule: inFlight.induct) auto

lemma extendsI:
  \<open>s_task s' = s_task s \<Longrightarrow> trace s' = trace s @ es \<Longrightarrow> list_all silent es \<Longrightarrow>
   s_tasks s' = s_tasks s @ ts \<Longrightarrow> accepted es = map request ts \<Longrightarrow> extends s s'\<close>
  unfolding extends_def by blast

lemma extends_refl: \<open>extends s s\<close>
  by (rule extendsI [where es = \<open>[]\<close> and ts = \<open>[]\<close>]) simp_all

lemma extends_trans:
  assumes \<open>extends s s'\<close> and \<open>extends s' s''\<close>
  shows \<open>extends s s''\<close>
proof -
  from assms(1) obtain es ts where 1: \<open>s_task s' = s_task s\<close> \<open>trace s' = trace s @ es\<close>
    \<open>list_all silent es\<close> \<open>s_tasks s' = s_tasks s @ ts\<close> \<open>accepted es = map request ts\<close>
    unfolding extends_def by blast
  from assms(2) obtain es' ts' where 2: \<open>s_task s'' = s_task s'\<close> \<open>trace s'' = trace s' @ es'\<close>
    \<open>list_all silent es'\<close> \<open>s_tasks s'' = s_tasks s' @ ts'\<close> \<open>accepted es' = map request ts'\<close>
    unfolding extends_def by blast
  show ?thesis
    using 1 2
    by (intro extendsI [where es = \<open>es @ es'\<close> and ts = \<open>ts @ ts'\<close>])
      (simp_all add: accepted_append)
qed

lemma extends_event:
  assumes \<open>silent e\<close> and \<open>accepted [e] = []\<close>
  shows \<open>extends s (emit e s)\<close>
  using assms
  by (intro extendsI [where es = \<open>[e]\<close> and ts = \<open>[]\<close>]) (simp_all add: emit_def)

lemma extends_consistent:
  assumes \<open>extends s s'\<close> and \<open>consistent b q s\<close>
  shows \<open>consistent b q s'\<close>
proof -
  from assms(1) obtain es ts where 1: \<open>trace s' = trace s @ es\<close>
    \<open>list_all silent es\<close> \<open>s_tasks s' = s_tasks s @ ts\<close> \<open>accepted es = map request ts\<close>
    unfolding extends_def by blast
  with assms(2) show ?thesis
    by (simp add: consistent_def sent_append accepted_append inFlight_append silent_sent
        silent_inFlight)
qed

lemma run_killed: \<open>s_killed s \<Longrightarrow> run call task s = s\<close>
  by (simp add: run_def)

lemma run_busy:
  \<open>\<not> s_killed s \<Longrightarrow> s_task s \<noteq> None \<Longrightarrow>
   run call task s =
     s\<lparr>trace := trace s @ [LogTask (t_action task) (t_code task)],
       s_tasks := s_tasks s @ [task]\<rparr>\<close>
  by (auto simp: run_def runLater_def emit_def Let_def)

lemma run_extends:
  assumes \<open>s_task s \<noteq> None\<close>
  shows \<open>extends s (run call task s)\<close>
proof (cases \<open>s_killed s\<close>)
  case True
  then show ?thesis by (simp add: run_killed extends_refl)
next
  case False
  with assms show ?thesis
    by (intro extendsI [where es = \<open>[LogTask (t_action task) (t_code task)]\<close>
          and ts = \<open>[task]\<close>])
      (simp_all add: run_busy request_def)
qed

lemma kill_extends: \<open>extends s (kill signal killCB s)\<close>
  by (intro extendsI [where ts = \<open>[]\<close> and es = \<open>[KillSignal (case signal of None \<Rightarrow> ''SIGTERM''
                        | Some sig \<Rightarrow> if sig = [] then ''SIGTERM'' else sig)]\<close>])
    (simp_all add: kill_def emit_def Let_def)

lemma emit_task [simp]: \<open>s_task (emit e s) = s_task s\<close>
  by (simp add: emit_def)

lemma extends_task: \<open>extends s s' \<Longrightarrow> s_task s' = s_task s\<close>
  by (simp add: extends_def)

text \<open>
  While \<open>_task\<close> is set, whatever a callback of the caller does on the session sends
  nothing, leaves \<open>_task\<close> as it is, and puts the tasks it submits at the end of the queue.
\<close>

lemma busy_extends:
  \<open>s_task s \<noteq> None \<longrightarrow> extends s (callback f x s)\<close>
  \<open>s_task s \<noteq> None \<longrightarrow> extends s (invoke g x s)\<close>
  \<open>s_task s \<noteq> None \<longrightarrow> extends s (perform c s)\<close>
  \<open>s_task s \<noteq> None \<longrightarrow> extends s (performAll cs s)\<close>
proof (induction f x s and g x s and c s and cs s
    rule: callback_invoke_perform_performAll.induct)
  case (1 l body x s)
  show ?case
  proof
    assume busy: \<open>s_task s \<noteq> None\<close>
    have \<open>extends s (emit (Called l x) s)\<close> by (rule extends_event) simp_all
    moreover have \<open>extends (emit (Called l x) s) (performAll body (emit (Called l x) s))\<close>
      using 1 busy by simp
    ultimately show \<open>extends s (callback (Callback l body) x s)\<close>
      using extends_trans by simp
  qed
next
  case (2 x s)
  show ?case by (simp add: extends_refl)
next
  case (3 f x s)
  then show ?case by simp
next
  case (4 code onExecutionSuccess onError beforeRun afterRun s)
  show ?case by (simp add: execute_def run_extends)
next
  case (5 code cursorPos onCompletionSuccess onError beforeRun afterRun s)
  then show ?case by (simp add: complete_def run_extends split: option.splits)
next
  case (6 code cursorPos onInspectionSuccess onError beforeRun afterRun s)
  then show ?case by (simp add: inspect_def run_extends split: option.splits)
next
  case (7 signal killCB s)
  show ?case by (simp add: kill_extends)
next
  case (8 s)
  show ?case by (simp add: extends_refl)
next
  case (9 c cs s)
  show ?case
  proof
    assume busy: \<open>s_task s \<noteq> None\<close>
    with 9 have a: \<open>extends s (perform c s)\<close> by simp
    then have \<open>s_task (perform c s) \<noteq> None\<close> using busy by (simp add: extends_task)
    with 9 have \<open>extends (perform c s) (performAll cs (perform c s))\<close> by simp
    with a show \<open>extends s (performAll (c # cs) s)\<close> using extends_trans by simp
  qed
qed

lemma runNow_task: \<open>s_task (runNow invoke task s) = Some task\<close>
proof -
  have \<open>extends (s\<lparr>s_task := Some task\<rparr>) (invoke (t_beforeRun task) NoArgs (s\<lparr>s_task := Some task\<rparr>))\<close>
    using busy_extends(2) by simp
  then show ?thesis by (simp add: runNow_def Let_def extends_task)
qed

lemma runNow_consistent:
  assumes \<open>consistent False [request task] s\<close>
  shows \<open>consistent True [] (runNow invoke task s)\<close>
proof -
  define s1 where \<open>s1 = s\<lparr>s_task := Some task\<rparr>\<close>
  define s2 where \<open>s2 = invoke (t_beforeRun task) NoArgs s1\<close>
  have \<open>consistent False [request task] s1\<close>
    using assms by (simp add: consistent_def s1_def)
  moreover have \<open>extends s1 s2\<close>
    unfolding s2_def using busy_extends(2) by (simp add: s1_def)
  ultimately have \<open>consistent False [request task] s2\<close>
    using extends_consistent by blast
  moreover have \<open>runNow invoke task s = emit (Send (t_action task) (t_code task)) s2\<close>
    by (simp add: runNow_def Let_def s1_def s2_def)
  ultimately show ?thesis
    by (simp add: consistent_def emit_def sent_append accepted_append inFlight_append request_def)
qed

lemma extends_invariant:
  assumes \<open>invariant s\<close> and \<open>s_task s \<noteq> None\<close> and \<open>extends s s'\<close>
  shows \<open>invariant s'\<close>
  using assms extends_consistent [of s s' True \<open>[]\<close>]
  by (auto simp: invariant_def extends_task)

lemma run_invariant:
  assumes \<open>invariant s\<close>
  shows \<open>invariant (run invoke task s)\<close>
proof (cases \<open>s_killed s \<or> s_task s \<noteq> None\<close>)
  case True
  then show ?thesis
    using assms run_killed [of s invoke task] run_extends [of s invoke task] extends_invariant
    by auto
next
  case False
  define s0 where \<open>s0 = emit (LogTask (t_action task) (t_code task)) s\<close>
  from False assms have \<open>consistent False [request task] s0\<close>
    by (simp add: invariant_def consistent_def s0_def emit_def sent_append accepted_append
        inFlight_append request_def)
  then have \<open>consistent True [] (runNow invoke task s0)\<close> by (rule runNow_consistent)
  moreover from False have \<open>run invoke task s = runNow invoke task s0\<close>
    by (simp add: run_def Let_def s0_def)
  ultimately show ?thesis by (simp add: invariant_def runNow_task)
qed

lemma emit_invariant:
  \<open>invariant s \<Longrightarrow> silent e \<Longrightarrow> accepted [e] = [] \<Longrightarrow> invariant (emit e s)\<close>
  by (simp add: invariant_def consistent_def emit_def sent_append accepted_append
      inFlight_append silent_sent silent_inFlight)

lemma kill_invariant: \<open>invariant s \<Longrightarrow> invariant (kill signal killCB s)\<close>
  by (simp add: invariant_def consistent_def kill_def emit_def Let_def sent_append
      accepted_append inFlight_append)

text \<open>Whatever the caller does, from whatever state, keeps the invariant.\<close>

lemma perform_invariant:
  \<open>invariant s \<longrightarrow> invariant (callback f x s)\<close>
  \<open>invariant s \<longrightarrow> invariant (invoke g x s)\<close>
  \<open>invariant s \<longrightarrow> invariant (perform c s)\<close>
  \<open>invariant s \<longrightarrow> invariant (performAll cs s)\<close>
proof (induction f x s and g x s and c s and cs s
    rule: callback_invoke_perform_performAll.induct)
  case (1 l body x s)
  show ?case
  proof
    assume \<open>invariant s\<close>
    then have \<open>invariant (emit (Called l x) s)\<close> by (rule emit_invariant) simp_all
    with 1 show \<open>invariant (callback (Callback l body) x s)\<close> by simp
  qed
next
  case (2 x s)
  show ?case by simp
next
  case (3 f x s)
  then show ?case by simp
next
  case (4 code onExecutionSuccess onError beforeRun afterRun s)
  show ?case by (simp add: execute_def run_invariant)
next
  case (5 code cursorPos onCompletionSuccess onError beforeRun afterRun s)
  then show ?case by (simp add: complete_def run_invariant split: option.splits)
next
  case (6 code cursorPos onInspectionSuccess onError beforeRun afterRun s)
  then show ?case by (simp add: inspect_def run_invariant split: option.splits)
next
  case (7 signal killCB s)
  show ?case by (simp add: kill_invariant)
next
  case (8 s)
  show ?case by simp
next
  case (9 c cs s)
  then show ?case by simp
qed

lemma invokeCallbacks_extends:
  assumes \<open>s_task s \<noteq> None\<close>
  shows \<open>extends s (invokeCallbacks onInspectionSuccess afterRun inspectionResult s)\<close>
proof -
  define s1 where \<open>s1 = invoke onInspectionSuccess (Message (InspectionResult inspectionResult)) s\<close>
  have a: \<open>extends s s1\<close> unfolding s1_def using busy_extends(2) assms by simp
  then have \<open>s_task s1 \<noteq> None\<close> using assms by (simp add: extends_task)
  then have \<open>extends s1 (invoke afterRun NoArgs s1)\<close> using busy_extends(2) by simp
  with a show ?thesis using extends_trans by (simp add: invokeCallbacks_def Let_def s1_def)
qed

lemma applyClosure_extends:
  assumes \<open>s_task s \<noteq> None\<close> and \<open>applyClosure table f message s = Inr s'\<close>
  shows \<open>extends s s'\<close>
proof (cases f)
  case (Caller g)
  with assms show ?thesis using busy_extends(1) by auto
next
  case (CompleteClosure code cursorPos expression onCompletionSuccess)
  with assms show ?thesis using busy_extends(2) by (cases message) auto
next
  case (InspectClosure code cursorPos expression onInspectionSuccess onError beforeRun afterRun)
  with assms show ?thesis
    by (cases message)
      (auto simp: getDocumentationAndInvokeCallbacks_def invokeCallbacks_extends run_extends)
next
  case (ScopeClosure inspectionResult expression onInspectionSuccess afterRun)
  with assms show ?thesis by (cases message) (auto simp: invokeCallbacks_extends)
qed

lemma advance_invariant:
  assumes \<open>consistent False [] s\<close>
  shows \<open>invariant (advance s)\<close>
proof (cases \<open>s_tasks s\<close>)
  case Nil
  with assms show ?thesis by (simp add: advance_def invariant_def consistent_def)
next
  case (Cons task rest)
  with assms have \<open>consistent False [request task] (s\<lparr>s_tasks := rest\<rparr>)\<close>
    by (simp add: consistent_def)
  then have \<open>consistent True [] (runNow invoke task (s\<lparr>s_tasks := rest\<rparr>))\<close>
    by (rule runNow_consistent)
  with Cons show ?thesis by (simp add: advance_def invariant_def runNow_task)
qed

lemma onMessage_invariant:
  assumes \<open>invariant s\<close> and \<open>onMessage table message s = Inr s'\<close>
  shows \<open>invariant s'\<close>
proof -
  define s0 where \<open>s0 = emit (LogMessage message) s\<close>
  from assms(2) obtain task where task: \<open>s_task s = Some task\<close>
    by (cases \<open>s_task s\<close>) (auto simp: onMessage_def Let_def)
  then have busy0: \<open>s_task s0 \<noteq> None\<close> by (simp add: s0_def)
  from assms(1) task have c0: \<open>consistent False [] s0\<close>
    by (simp add: invariant_def consistent_def s0_def emit_def sent_append accepted_append
        inFlight_append)
  define r where \<open>r = (if isError message then Inr (invoke (t_onError task) (Message message) s0)
                 else (case t_onSuccess task of
                         None \<Rightarrow> Inr s0
                       | Some f \<Rightarrow> applyClosure table f message s0))\<close>
  have \<open>onMessage table message s =
      (case r of Inl err \<Rightarrow> Inl err
       | Inr s1 \<Rightarrow> Inr (advance (invoke (t_afterRun task) NoArgs s1)))\<close>
    unfolding onMessage_def Let_def s0_def r_def using task by simp
  with assms(2) obtain s1 where s1: \<open>r = Inr s1\<close>
    and s': \<open>s' = advance (invoke (t_afterRun task) NoArgs s1)\<close>
    by (cases r) auto
  have e1: \<open>extends s0 s1\<close>
    using s1 busy0 busy_extends(2) [of s0] applyClosure_extends [of s0] extends_refl
    by (auto simp: r_def split: if_splits option.splits)
  then have \<open>s_task s1 \<noteq> None\<close> using busy0 by (simp add: extends_task)
  then have \<open>extends s1 (invoke (t_afterRun task) NoArgs s1)\<close> using busy_extends(2) by simp
  with e1 have \<open>extends s0 (invoke (t_afterRun task) NoArgs s1)\<close> using extends_trans by blast
  with c0 have \<open>consistent False [] (invoke (t_afterRun task) NoArgs s1)\<close>
    using extends_consistent by blast
  then show ?thesis unfolding s' by (rule advance_invariant)
qed

lemma step_invariant:
  \<open>invariant s \<Longrightarrow> step table i s = Inr s' \<Longrightarrow> invariant s'\<close>
  using perform_invariant(2,3) onMessage_invariant
  by (cases i) (auto simp: step_def split: if_splits option.splits)

lemma steps_invariant:
  \<open>invariant s \<Longrightarrow> steps table inputs s = Inr s' \<Longrightarrow> invariant s'\<close>
proof (induction inputs arbitrary: s)
  case Nil
  then show ?case by simp
next
  case (Cons i inputs)
  then show ?case by (auto split: sum.splits dest: step_invariant)
qed

lemma Session_invariant: \<open>invariant Session\<close>
  by (simp add: invariant_def consistent_def Session_def)

text \<open>
  C1. Whatever calls the caller makes on a session and whatever messages the worker sends,
  at most one task is in flight: requests sent and replies handled take turns, starting
  with a request, so no second request is sent before the reply to the first has been
  handled; the requests are sent in the order in which \<open>_run\<close> took the tasks, the tasks not
  yet sent being the queue, in this order; the queue is empty while no task is in flight;
  and a task submitted to a session that is not killed while a task is in flight is put
  at the end of the queue and nothing is sent.
\<close>

theorem one_task_in_flight:
  assumes \<open>steps table inputs Session = Inr s\<close>
  shows \<open>inFlight False (trace s) = Some (s_task s \<noteq> None)
     \<and> accepted (trace s) = sent (trace s) @ map request (s_tasks s)
     \<and> (s_task s = None \<longrightarrow> s_tasks s = [])
     \<and> (\<forall>task. \<not> s_killed s \<and> s_task s \<noteq> None \<longrightarrow>
           run invoke task s =
             s\<lparr>trace := trace s @ [LogTask (t_action task) (t_code task)],
               s_tasks := s_tasks s @ [task]\<rparr>)\<close>
  using steps_invariant [OF Session_invariant assms] run_busy
  by (simp add: invariant_def consistent_def)

theorem one_task_in_flight_witness:
  \<open>steps (\<lambda>_. None)
     [Call (Execute ''t0'' None None None None), Call (Execute ''t1'' None None None None),
      Call (Execute ''t2'' None None None None),
      WorkerMessage (ExecutionResult \<lparr>text_plain = Some ''0'', text_html = None\<rparr>)] Session =
   Inr (projr (steps (\<lambda>_. None)
     [Call (Execute ''t0'' None None None None), Call (Execute ''t1'' None None None None),
      Call (Execute ''t2'' None None None None),
      WorkerMessage (ExecutionResult \<lparr>text_plain = Some ''0'', text_html = None\<rparr>)] Session))
   \<and> trace (projr (steps (\<lambda>_. None)
     [Call (Execute ''t0'' None None None None), Call (Execute ''t1'' None None None None),
      Call (Execute ''t2'' None None None None),
      WorkerMessage (ExecutionResult \<lparr>text_plain = Some ''0'', text_html = None\<rparr>)] Session)) =
     [LogTask ''run'' ''t0'', Send ''run'' ''t0'', LogTask ''run'' ''t1'', LogTask ''run'' ''t2'',
      LogMessage (ExecutionResult \<lparr>text_plain = Some ''0'', text_html = None\<rparr>),
      Send ''run'' ''t1'']
   \<and> inFlight False
       [LogTask ''run'' ''t0'', Send ''run'' ''t0'', LogTask ''run'' ''t1'', LogTask ''run'' ''t2'',
        LogMessage (ExecutionResult \<lparr>text_plain = Some ''0'', text_html = None\<rparr>),
        Send ''run'' ''t1''] = Some True
   \<and> map request (s_tasks (projr (steps (\<lambda>_. None)
     [Call (Execute ''t0'' None None None None), Call (Execute ''t1'' None None None None),
      Call (Execute ''t2'' None None None None),
      WorkerMessage (ExecutionResult \<lparr>text_plain = Some ''0'', text_html = None\<rparr>)] Session)))
     = [(''run'', ''t2'')]\<close>
proof -
  let ?inputs = \<open>[Call (Execute ''t0'' None None None None),
      Call (Execute ''t1'' None None None None), Call (Execute ''t2'' None None None None),
      WorkerMessage (ExecutionResult \<lparr>text_plain = Some ''0'', text_html = None\<rparr>)]\<close>
  have r: \<open>steps (\<lambda>_. None) ?inputs Session = Inr (projr (steps (\<lambda>_. None) ?inputs Session))\<close>
    by code_simp
  have t: \<open>trace (projr (steps (\<lambda>_. None) ?inputs Session)) =
     [LogTask ''run'' ''t0'', Send ''run'' ''t0'', LogTask ''run'' ''t1'', LogTask ''run'' ''t2'',
      LogMessage (ExecutionResult \<lparr>text_plain = Some ''0'', text_html = None\<rparr>),
      Send ''run'' ''t1'']\<close>
    by code_simp
  have q: \<open>map request (s_tasks (projr (steps (\<lambda>_. None) ?inputs Session))) = [(''run'', ''t2'')]\<close>
    by code_simp
  show ?thesis
    using one_task_in_flight [OF r] r t q by simp
qed


text \<open>
  What does hold of \<open>kill\<close>: a task submitted to a killed session is dropped, and once
  \<open>kill\<close> has been called and the handler of a reply, if one was running, has returned,
  nothing is sent any more and the queue stays as it is, whatever the caller and the
  worker do.
\<close>

lemma execute_after_kill:
  \<open>s_killed s \<Longrightarrow> execute call code onExecutionSuccess onError beforeRun afterRun s = s\<close>
  by (simp add: execute_def run_killed)

lemma kill_killed:
  \<open>s_killed (kill signal killCB s) \<and> \<not> messageListener (kill signal killCB s)\<close>
  by (simp add: kill_def emit_def Let_def)

lemma killed_perform:
  \<open>s_killed s \<and> \<not> messageListener s \<longrightarrow>
     s_killed (callback f x s) \<and> \<not> messageListener (callback f x s)
     \<and> sent (trace (callback f x s)) = sent (trace s)
     \<and> s_task (callback f x s) = s_task s \<and> s_tasks (callback f x s) = s_tasks s\<close>
  \<open>s_killed s \<and> \<not> messageListener s \<longrightarrow>
     s_killed (invoke g x s) \<and> \<not> messageListener (invoke g x s)
     \<and> sent (trace (invoke g x s)) = sent (trace s)
     \<and> s_task (invoke g x s) = s_task s \<and> s_tasks (invoke g x s) = s_tasks s\<close>
  \<open>s_killed s \<and> \<not> messageListener s \<longrightarrow>
     s_killed (perform c s) \<and> \<not> messageListener (perform c s)
     \<and> sent (trace (perform c s)) = sent (trace s)
     \<and> s_task (perform c s) = s_task s \<and> s_tasks (perform c s) = s_tasks s\<close>
  \<open>s_killed s \<and> \<not> messageListener s \<longrightarrow>
     s_killed (performAll cs s) \<and> \<not> messageListener (performAll cs s)
     \<and> sent (trace (performAll cs s)) = sent (trace s)
     \<and> s_task (performAll cs s) = s_task s \<and> s_tasks (performAll cs s) = s_tasks s\<close>
proof (induction f x s and g x s and c s and cs s
    rule: callback_invoke_perform_performAll.induct)
  case (1 l body x s)
  then show ?case by (simp add: emit_def sent_append)
next
  case (2 x s)
  show ?case by simp
next
  case (3 f x s)
  then show ?case by simp
next
  case (4 code onExecutionSuccess onError beforeRun afterRun s)
  show ?case by (simp add: execute_def run_killed)
next
  case (5 code cursorPos onCompletionSuccess onError beforeRun afterRun s)
  then show ?case by (simp add: complete_def run_killed split: option.splits)
next
  case (6 code cursorPos onInspectionSuccess onError beforeRun afterRun s)
  then show ?case by (simp add: inspect_def run_killed split: option.splits)
next
  case (7 signal killCB s)
  show ?case by (simp add: kill_def emit_def Let_def sent_append)
next
  case (8 s)
  show ?case by simp
next
  case (9 c cs s)
  then show ?case by simp
qed

lemma killed_step:
  assumes \<open>s_killed s\<close> and \<open>\<not> messageListener s\<close>
  shows \<open>\<exists>s'. step table i s = Inr s' \<and> s_killed s' \<and> \<not> messageListener s'
     \<and> sent (trace s') = sent (trace s) \<and> s_task s' = s_task s \<and> s_tasks s' = s_tasks s\<close>
proof (cases i)
  case (Call c)
  with assms killed_perform(3) [of s c] show ?thesis by (simp add: step_def)
next
  case (WorkerMessage message)
  with assms show ?thesis by (simp add: step_def)
next
  case (WorkerExit code signal)
  show ?thesis
  proof (cases \<open>exitListener s\<close>)
    case None
    with WorkerExit assms show ?thesis by (simp add: step_def)
  next
    case (Some killCB)
    with WorkerExit assms killed_perform(2) [of s killCB \<open>Exit code signal\<close>] show ?thesis
      by (simp add: step_def)
  qed
qed

lemma killed_steps:
  \<open>s_killed s \<Longrightarrow> \<not> messageListener s \<Longrightarrow>
   \<exists>s'. steps table inputs s = Inr s' \<and> sent (trace s') = sent (trace s)
     \<and> s_task s' = s_task s \<and> s_tasks s' = s_tasks s\<close>
proof (induction inputs arbitrary: s)
  case Nil
  then show ?case by simp
next
  case (Cons i inputs)
  from killed_step [OF Cons.prems, of table i] obtain s1 where
    s1: \<open>step table i s = Inr s1\<close> \<open>s_killed s1\<close> \<open>\<not> messageListener s1\<close>
    \<open>sent (trace s1) = sent (trace s)\<close> \<open>s_task s1 = s_task s\<close> \<open>s_tasks s1 = s_tasks s\<close>
    by blast
  from Cons.IH [OF s1(2,3)] s1 show ?case by auto
qed

text \<open>
  C2 says that once \<open>kill\<close> has been called no request is sent and no callback of a queued
  task is called. \<open>_run\<close> looks at \<open>_killed\<close>; the end of \<open>_onMessage\<close> does not: when a
  callback of the task in flight calls \<open>kill\<close>, the handler goes on, takes the next task
  out of the queue, calls its \<open>beforeRun\<close> and sends its request. Here the task \<open>a\<close> is in
  flight with an \<open>onSuccess\<close> that calls \<open>kill\<close>, the task \<open>b\<close> waits with a \<open>beforeRun\<close>
  (label 2), and the worker answers \<open>a\<close>.
\<close>

theorem kill_in_callback_dispatches_queued:
  \<open>map_sum id trace
     (steps (\<lambda>_. None)
        [Call (Execute ''a'' (Some (Callback 1 [Kill None None])) None None None),
         Call (Execute ''b'' None None (Some (Callback 2 [])) None),
         WorkerMessage (ExecutionResult \<lparr>text_plain = Some ''1'', text_html = None\<rparr>)]
        Session) =
   Inr [LogTask ''run'' ''a'', Send ''run'' ''a'', LogTask ''run'' ''b'',
        LogMessage (ExecutionResult \<lparr>text_plain = Some ''1'', text_html = None\<rparr>),
        Called 1 (Message (ExecutionResult \<lparr>text_plain = Some ''1'', text_html = None\<rparr>)),
        KillSignal ''SIGTERM'', Called 2 NoArgs, Send ''run'' ''b'']\<close>
  by code_simp

lemma attach_searchConstructors:
  \<open>attach (searchConstructors table constructorList sel) inspectionResult =
     (case find (\<lambda>c. getDocumentation table (c @ ''.prototype.'' @ sel) \<noteq> None) constructorList of
        None \<Rightarrow> inspectionResult
      | Some c \<Rightarrow> inspectionResult\<lparr>doc := getDocumentation table (c @ ''.prototype.'' @ sel)\<rparr>)\<close>
  by (induction constructorList) (auto simp: attach_def split: option.splits)

lemma onMessage_task:
  assumes \<open>s_task s = Some task\<close>
  shows \<open>onMessage table message s =
     (case (if isError message
            then Inr (invoke (t_onError task) (Message message) (emit (LogMessage message) s))
            else (case t_onSuccess task of
                    None \<Rightarrow> Inr (emit (LogMessage message) s)
                  | Some f \<Rightarrow> applyClosure table f message (emit (LogMessage message) s))) of
        Inl err \<Rightarrow> Inl err
      | Inr s1 \<Rightarrow> Inr (advance (invoke (t_afterRun task) NoArgs s1)))\<close>
  unfolding onMessage_def Let_def using assms by simp

text \<open>
  C7. For a call of \<open>inspect\<close> whose expression has a scope that is not empty: handling the
  successful reply to its first task submits a second task, with the action \<open>inspect\<close> and
  the scope as its code, and calls no callback of the caller; handling the successful
  reply to that task goes through \<open>constructorList\<close> in order, looks up
  \<open><constructor>.prototype.<selector>\<close> for each name, attaches the first entry found and
  none if there is none (or no list), and only then calls \<open>onInspectionSuccess\<close> with the
  result and after it \<open>afterRun\<close>.
\<close>

theorem inspect_scope_documentation:
  assumes \<open>scope e \<noteq> []\<close>
  shows \<open>(s_task s = Some (inspectTask code cursorPos e onInspectionSuccess onError beforeRun afterRun) \<longrightarrow>
      onMessage table (InspectionResult result) s =
        Inr (advance
          (run invoke
             (scopeTask (stamp code cursorPos e result) e onInspectionSuccess onError beforeRun afterRun)
             (emit (LogMessage (InspectionResult result)) s))))
    \<and> t_action (scopeTask inspectionResult e onInspectionSuccess onError beforeRun afterRun) = ''inspect''
    \<and> t_code (scopeTask inspectionResult e onInspectionSuccess onError beforeRun afterRun) = scope e
    \<and> (s_task s = Some (scopeTask inspectionResult e onInspectionSuccess onError beforeRun afterRun) \<longrightarrow>
      onMessage table (InspectionResult result) s =
        Inr (advance
          (invoke afterRun NoArgs
             (invoke onInspectionSuccess
                (Message (InspectionResult
                   (case i_constructorList (inspection result) of
                      None \<Rightarrow> inspectionResult
                    | Some constructorList \<Rightarrow>
                        (case find (\<lambda>c. getDocumentation table (c @ ''.prototype.'' @ selector e) \<noteq> None)
                                constructorList of
                           None \<Rightarrow> inspectionResult
                         | Some c \<Rightarrow>
                             inspectionResult
                               \<lparr>doc := getDocumentation table (c @ ''.prototype.'' @ selector e)\<rparr>))))
                (emit (LogMessage (InspectionResult result)) s)))))\<close>
proof -
  have first: \<open>onMessage table (InspectionResult result) s =
        Inr (advance
          (run invoke
             (scopeTask (stamp code cursorPos e result) e onInspectionSuccess onError beforeRun afterRun)
             (emit (LogMessage (InspectionResult result)) s)))\<close>
    if \<open>s_task s = Some (inspectTask code cursorPos e onInspectionSuccess onError beforeRun afterRun)\<close>
    using assms
    by (simp add: onMessage_task [OF that] isError_def inspectTask_def
        getDocumentationAndInvokeCallbacks_def)
  have second: \<open>onMessage table (InspectionResult result) s =
        Inr (advance
          (invoke afterRun NoArgs
             (invoke onInspectionSuccess
                (Message (InspectionResult
                   (case i_constructorList (inspection result) of
                      None \<Rightarrow> inspectionResult
                    | Some constructorList \<Rightarrow>
                        (case find (\<lambda>c. getDocumentation table (c @ ''.prototype.'' @ selector e) \<noteq> None)
                                constructorList of
                           None \<Rightarrow> inspectionResult
                         | Some c \<Rightarrow>
                             inspectionResult
                               \<lparr>doc := getDocumentation table (c @ ''.prototype.'' @ selector e)\<rparr>))))
                (emit (LogMessage (InspectionResult result)) s))))\<close>
    if \<open>s_task s = Some (scopeTask inspectionResult e onInspectionSuccess onError beforeRun afterRun)\<close>
    by (simp add: onMessage_task [OF that] isError_def scopeTask_def invokeCallbacks_def
        Let_def attach_searchConstructors split: option.splits)
  show ?thesis using first second by (simp add: scopeTask_def)
qed

theorem inspect_scope_documentation_witness:
  \<open>scope \<lparr>matchedText = ''x.foo'', scope = ''x'', leftOp = ''.'', selector = ''foo'', rightOp = []\<rparr> \<noteq> []
   \<and> s_task (perform (Inspect ''x.foo'' 5 (Some (Callback 1 [])) (Some (Callback 2 [])) (Some (Callback 3 [])) (Some (Callback 4 []))) Session) = Some (inspectTask ''x.foo'' 5 \<lparr>matchedText = ''x.foo'', scope = ''x'', leftOp = ''.'', selector = ''foo'', rightOp = []\<rparr> (Some (Callback 1 [])) (Some (Callback 2 [])) (Some (Callback 3 [])) (Some (Callback 4 [])))
   \<and> onMessage (Map.empty(''A.prototype.foo'' \<mapsto> \<lparr>description = ''foo of A'', usage = None, url = ''mdn''\<rparr>)) (InspectionResult \<lparr>inspection = \<lparr>i_string = ''1'', i_type = ''Number'', i_constructorList = None, i_length = None, i_code = None, i_cursorPos = None, i_matchedText = None\<rparr>, doc = None\<rparr>) (perform (Inspect ''x.foo'' 5 (Some (Callback 1 [])) (Some (Callback 2 [])) (Some (Callback 3 [])) (Some (Callback 4 []))) Session) =
       Inr (advance
         (run invoke (scopeTask (stamp ''x.foo'' 5 \<lparr>matchedText = ''x.foo'', scope = ''x'', leftOp = ''.'', selector = ''foo'', rightOp = []\<rparr> \<lparr>inspection = \<lparr>i_string = ''1'', i_type = ''Number'', i_constructorList = None, i_length = None, i_code = None, i_cursorPos = None, i_matchedText = None\<rparr>, doc = None\<rparr>) \<lparr>matchedText = ''x.foo'', scope = ''x'', leftOp = ''.'', selector = ''foo'', rightOp = []\<rparr> (Some (Callback 1 [])) (Some (Callback 2 [])) (Some (Callback 3 [])) (Some (Callback 4 [])))
            (emit (LogMessage (InspectionResult \<lparr>inspection = \<lparr>i_string = ''1'', i_type = ''Number'', i_constructorList = None, i_length = None, i_code = None, i_cursorPos = None, i_matchedText = None\<rparr>, doc = None\<rparr>)) (perform (Inspect ''x.foo'' 5 (Some (Callback 1 [])) (Some (Callback 2 [])) (Some (Callback 3 [])) (Some (Callback 4 []))) Session))))
   \<and> map_sum id trace
       (steps (Map.empty(''A.prototype.foo'' \<mapsto> \<lparr>description = ''foo of A'', usage = None, url = ''mdn''\<rparr>))
          [Call (Inspect ''x.foo'' 5 (Some (Callback 1 [])) (Some (Callback 2 [])) (Some (Callback 3 [])) (Some (Callback 4 []))), WorkerMessage (InspectionResult \<lparr>inspection = \<lparr>i_string = ''1'', i_type = ''Number'', i_constructorList = None, i_length = None, i_code = None, i_cursorPos = None, i_matchedText = None\<rparr>, doc = None\<rparr>),
           WorkerMessage (InspectionResult \<lparr>inspection = \<lparr>i_string = ''1'', i_type = ''Number'', i_constructorList = Some [''B'', ''A'', ''Object''], i_length = None, i_code = None, i_cursorPos = None, i_matchedText = None\<rparr>, doc = None\<rparr>)] Session) =
       Inr [LogTask ''inspect'' ''x.foo'', Called 3 NoArgs, Send ''inspect'' ''x.foo'',
            LogMessage (InspectionResult \<lparr>inspection = \<lparr>i_string = ''1'', i_type = ''Number'', i_constructorList = None, i_length = None, i_code = None, i_cursorPos = None, i_matchedText = None\<rparr>, doc = None\<rparr>),
            LogTask ''inspect'' ''x'', Called 3 NoArgs, Send ''inspect'' ''x'',
            LogMessage (InspectionResult \<lparr>inspection = \<lparr>i_string = ''1'', i_type = ''Number'', i_constructorList = Some [''B'', ''A'', ''Object''], i_length = None, i_code = None, i_cursorPos = None, i_matchedText = None\<rparr>, doc = None\<rparr>),
            Called 1 (Message (InspectionResult \<lparr>inspection = \<lparr>i_string = ''1'', i_type = ''Number'', i_constructorList = None, i_length = None, i_code = Some ''x.foo'', i_cursorPos = Some 5, i_matchedText = Some ''x.foo''\<rparr>, doc = Some \<lparr>description = ''foo of A'', usage = None, url = ''mdn''\<rparr>\<rparr>)), Called 4 NoArgs]\<close>
proof -
  have a: \<open>scope \<lparr>matchedText = ''x.foo'', scope = ''x'', leftOp = ''.'', selector = ''foo'', rightOp = []\<rparr> \<noteq> []\<close>
    by simp
  have b: \<open>s_task (perform (Inspect ''x.foo'' 5 (Some (Callback 1 [])) (Some (Callback 2 [])) (Some (Callback 3 [])) (Some (Callback 4 []))) Session) = Some (inspectTask ''x.foo'' 5 \<lparr>matchedText = ''x.foo'', scope = ''x'', leftOp = ''.'', selector = ''foo'', rightOp = []\<rparr> (Some (Callback 1 [])) (Some (Callback 2 [])) (Some (Callback 3 [])) (Some (Callback 4 [])))\<close>
    by code_simp
  have c: \<open>map_sum id trace
       (steps (Map.empty(''A.prototype.foo'' \<mapsto> \<lparr>description = ''foo of A'', usage = None, url = ''mdn''\<rparr>))
          [Call (Inspect ''x.foo'' 5 (Some (Callback 1 [])) (Some (Callback 2 [])) (Some (Callback 3 [])) (Some (Callback 4 []))), WorkerMessage (InspectionResult \<lparr>inspection = \<lparr>i_string = ''1'', i_type = ''Number'', i_constructorList = None, i_length = None, i_code = None, i_cursorPos = None, i_matchedText = None\<rparr>, doc = None\<rparr>),
           WorkerMessage (InspectionResult \<lparr>inspection = \<lparr>i_string = ''1'', i_type = ''Number'', i_constructorList = Some [''B'', ''A'', ''Object''], i_length = None, i_code = None, i_cursorPos = None, i_matchedText = None\<rparr>, doc = None\<rparr>)] Session) =
       Inr [LogTask ''inspect'' ''x.foo'', Called 3 NoArgs, Send ''inspect'' ''x.foo'',
            LogMessage (InspectionResult \<lparr>inspection = \<lparr>i_string = ''1'', i_type = ''Number'', i_constructorList = None, i_length = None, i_code = None, i_cursorPos = None, i_matchedText = None\<rparr>, doc = None\<rparr>),
            LogTask ''inspect'' ''x'', Called 3 NoArgs, Send ''inspect'' ''x'',
            LogMessage (InspectionResult \<lparr>inspection = \<lparr>i_string = ''1'', i_type = ''Number'', i_constructorList = Some [''B'', ''A'', ''Object''], i_length = None, i_code = None, i_cursorPos = None, i_matchedText = None\<rparr>, doc = None\<rparr>),
            Called 1 (Message (InspectionResult \<lparr>inspection = \<lparr>i_string = ''1'', i_type = ''Number'', i_constructorList = None, i_length = None, i_code = Some ''x.foo'', i_cursorPos = Some 5, i_matchedText = Some ''x.foo''\<rparr>, doc = Some \<lparr>description = ''foo of A'', usage = None, url = ''mdn''\<rparr>\<rparr>)), Called 4 NoArgs]\<close>
    by code_simp
  from inspect_scope_documentation [OF a, of \<open>(perform (Inspect ''x.foo'' 5 (Some (Callback 1 [])) (Some (Callback 2 [])) (Some (Callback 3 [])) (Some (Callback 4 []))) Session)\<close> \<open>''x.foo''\<close> 5
      \<open>Some (Callback 1 [])\<close> \<open>Some (Callback 2 [])\<close> \<open>Some (Callback 3 [])\<close>
      \<open>Some (Callback 4 [])\<close> \<open>(Map.empty(''A.prototype.foo'' \<mapsto> \<lparr>description = ''foo of A'', usage = None, url = ''mdn''\<rparr>))\<close> \<open>\<lparr>inspection = \<lparr>i_string = ''1'', i_type = ''Number'', i_constructorList = None, i_length = None, i_code = None, i_cursorPos = None, i_matchedText = None\<rparr>, doc = None\<rparr>\<close>] b
  have \<open>onMessage (Map.empty(''A.prototype.foo'' \<mapsto> \<lparr>description = ''foo of A'', usage = None, url = ''mdn''\<rparr>)) (InspectionResult \<lparr>inspection = \<lparr>i_string = ''1'', i_type = ''Number'', i_constructorList = None, i_length = None, i_code = None, i_cursorPos = None, i_matchedText = None\<rparr>, doc = None\<rparr>) (perform (Inspect ''x.foo'' 5 (Some (Callback 1 [])) (Some (Callback 2 [])) (Some (Callback 3 [])) (Some (Callback 4 []))) Session) =
       Inr (advance
         (run invoke (scopeTask (stamp ''x.foo'' 5 \<lparr>matchedText = ''x.foo'', scope = ''x'', leftOp = ''.'', selector = ''foo'', rightOp = []\<rparr> \<lparr>inspection = \<lparr>i_string = ''1'', i_type = ''Number'', i_constructorList = None, i_length = None, i_code = None, i_cursorPos = None, i_matchedText = None\<rparr>, doc = None\<rparr>) \<lparr>matchedText = ''x.foo'', scope = ''x'', leftOp = ''.'', selector = ''foo'', rightOp = []\<rparr> (Some (Callback 1 [])) (Some (Callback 2 [])) (Some (Callback 3 [])) (Some (Callback 4 [])))
            (emit (LogMessage (InspectionResult \<lparr>inspection = \<lparr>i_string = ''1'', i_type = ''Number'', i_constructorList = None, i_length = None, i_code = None, i_cursorPos = None, i_matchedText = None\<rparr>, doc = None\<rparr>)) (perform (Inspect ''x.foo'' 5 (Some (Callback 1 [])) (Some (Callback 2 [])) (Some (Callback 3 [])) (Some (Callback 4 []))) Session))))\<close>
    by blast
  with a b c show ?thesis by blast
qed

text \<open>
  C9. The two tasks of \<open>inspect\<close> have no \<open>afterRun\<close>: when the reply to either is an error,
  \<open>onError\<close> is called and \<open>afterRun\<close> is not. The tasks of \<open>execute\<close> and \<open>complete\<close> have the
  caller's \<open>afterRun\<close>, which is called after \<open>onError\<close> on an error and after the success
  callback on a success.
\<close>

theorem inspect_error_skips_afterRun:
  \<open>(s_task s = Some (inspectTask code cursorPos e onInspectionSuccess onError beforeRun afterRun)
     \<or> s_task s = Some (scopeTask inspectionResult e onInspectionSuccess onError beforeRun afterRun) \<longrightarrow>
      onMessage table (ErrorResult err) s =
        Inr (advance (invoke onError (Message (ErrorResult err))
                        (emit (LogMessage (ErrorResult err)) s))))
   \<and> t_afterRun (inspectTask code cursorPos e onInspectionSuccess onError beforeRun afterRun) = None
   \<and> t_afterRun (scopeTask inspectionResult e onInspectionSuccess onError beforeRun afterRun) = None
   \<and> (s_task s = Some (executeTask code onExecutionSuccess onError beforeRun afterRun)
       \<or> s_task s = Some (completeTask code cursorPos e onCompletionSuccess onError beforeRun afterRun) \<longrightarrow>
      onMessage table (ErrorResult err) s =
        Inr (advance (invoke afterRun NoArgs
                        (invoke onError (Message (ErrorResult err))
                           (emit (LogMessage (ErrorResult err)) s)))))
   \<and> (s_task s = Some (executeTask code onExecutionSuccess onError beforeRun afterRun) \<longrightarrow>
      onMessage table (ExecutionResult m) s =
        Inr (advance (invoke afterRun NoArgs
                        (invoke onExecutionSuccess (Message (ExecutionResult m))
                           (emit (LogMessage (ExecutionResult m)) s)))))
   \<and> (s_task s = Some (completeTask code cursorPos e onCompletionSuccess onError beforeRun afterRun) \<longrightarrow>
      onMessage table (NameListResult names) s =
        Inr (advance (invoke afterRun NoArgs
                        (invoke onCompletionSuccess
                           (CompletionResult (complete_onSuccess code cursorPos e names))
                           (emit (LogMessage (NameListResult names)) s)))))\<close>
  by (cases onExecutionSuccess)
    (auto simp: onMessage_task isError_def inspectTask_def scopeTask_def executeTask_def
      completeTask_def)

theorem inspect_error_skips_afterRun_witness:
  \<open>s_task (perform (Inspect ''x.foo'' 5 (Some (Callback 1 [])) (Some (Callback 2 [])) (Some (Callback 3 [])) (Some (Callback 4 []))) Session) = Some (inspectTask ''x.foo'' 5 \<lparr>matchedText = ''x.foo'', scope = ''x'', leftOp = ''.'', selector = ''foo'', rightOp = []\<rparr> (Some (Callback 1 [])) (Some (Callback 2 [])) (Some (Callback 3 [])) (Some (Callback 4 [])))
   \<and> onMessage (Map.empty(''A.prototype.foo'' \<mapsto> \<lparr>description = ''foo of A'', usage = None, url = ''mdn''\<rparr>)) (ErrorResult \<lparr>ename = ''ReferenceError'', evalue = ''x is not defined'', traceback = []\<rparr>) (perform (Inspect ''x.foo'' 5 (Some (Callback 1 [])) (Some (Callback 2 [])) (Some (Callback 3 [])) (Some (Callback 4 []))) Session) =
       Inr (advance (invoke (Some (Callback 2 [])) (Message (ErrorResult \<lparr>ename = ''ReferenceError'', evalue = ''x is not defined'', traceback = []\<rparr>))
                       (emit (LogMessage (ErrorResult \<lparr>ename = ''ReferenceError'', evalue = ''x is not defined'', traceback = []\<rparr>)) (perform (Inspect ''x.foo'' 5 (Some (Callback 1 [])) (Some (Callback 2 [])) (Some (Callback 3 [])) (Some (Callback 4 []))) Session))))
   \<and> map_sum id trace
       (steps (Map.empty(''A.prototype.foo'' \<mapsto> \<lparr>description = ''foo of A'', usage = None, url = ''mdn''\<rparr>)) [Call (Inspect ''x.foo'' 5 (Some (Callback 1 [])) (Some (Callback 2 [])) (Some (Callback 3 [])) (Some (Callback 4 []))), WorkerMessage (ErrorResult \<lparr>ename = ''ReferenceError'', evalue = ''x is not defined'', traceback = []\<rparr>)] Session) =
       Inr [LogTask ''inspect'' ''x.foo'', Called 3 NoArgs, Send ''inspect'' ''x.foo'',
            LogMessage (ErrorResult \<lparr>ename = ''ReferenceError'', evalue = ''x is not defined'', traceback = []\<rparr>), Called 2 (Message (ErrorResult \<lparr>ename = ''ReferenceError'', evalue = ''x is not defined'', traceback = []\<rparr>))]
   \<and> map_sum id trace
       (steps (Map.empty(''A.prototype.foo'' \<mapsto> \<lparr>description = ''foo of A'', usage = None, url = ''mdn''\<rparr>))
          [Call (Inspect ''x.foo'' 5 (Some (Callback 1 [])) (Some (Callback 2 [])) (Some (Callback 3 [])) (Some (Callback 4 []))), WorkerMessage (InspectionResult \<lparr>inspection = \<lparr>i_string = ''1'', i_type = ''Number'', i_constructorList = None, i_length = None, i_code = None, i_cursorPos = None, i_matchedText = None\<rparr>, doc = None\<rparr>),
           WorkerMessage (ErrorResult \<lparr>ename = ''ReferenceError'', evalue = ''x is not defined'', traceback = []\<rparr>)] Session) =
       Inr [LogTask ''inspect'' ''x.foo'', Called 3 NoArgs, Send ''inspect'' ''x.foo'',
            LogMessage (InspectionResult \<lparr>inspection = \<lparr>i_string = ''1'', i_type = ''Number'', i_constructorList = None, i_length = None, i_code = None, i_cursorPos = None, i_matchedText = None\<rparr>, doc = None\<rparr>),
            LogTask ''inspect'' ''x'', Called 3 NoArgs, Send ''inspect'' ''x'',
            LogMessage (ErrorResult \<lparr>ename = ''ReferenceError'', evalue = ''x is not defined'', traceback = []\<rparr>), Called 2 (Message (ErrorResult \<lparr>ename = ''ReferenceError'', evalue = ''x is not defined'', traceback = []\<rparr>))]\<close>
proof -
  have b: \<open>s_task (perform (Inspect ''x.foo'' 5 (Some (Callback 1 [])) (Some (Callback 2 [])) (Some (Callback 3 [])) (Some (Callback 4 []))) Session) = Some (inspectTask ''x.foo'' 5 \<lparr>matchedText = ''x.foo'', scope = ''x'', leftOp = ''.'', selector = ''foo'', rightOp = []\<rparr> (Some (Callback 1 [])) (Some (Callback 2 [])) (Some (Callback 3 [])) (Some (Callback 4 [])))\<close>
    by code_simp
  have c: \<open>map_sum id trace
       (steps (Map.empty(''A.prototype.foo'' \<mapsto> \<lparr>description = ''foo of A'', usage = None, url = ''mdn''\<rparr>)) [Call (Inspect ''x.foo'' 5 (Some (Callback 1 [])) (Some (Callback 2 [])) (Some (Callback 3 [])) (Some (Callback 4 []))), WorkerMessage (ErrorResult \<lparr>ename = ''ReferenceError'', evalue = ''x is not defined'', traceback = []\<rparr>)] Session) =
       Inr [LogTask ''inspect'' ''x.foo'', Called 3 NoArgs, Send ''inspect'' ''x.foo'',
            LogMessage (ErrorResult \<lparr>ename = ''ReferenceError'', evalue = ''x is not defined'', traceback = []\<rparr>), Called 2 (Message (ErrorResult \<lparr>ename = ''ReferenceError'', evalue = ''x is not defined'', traceback = []\<rparr>))]\<close>
    by code_simp
  have d: \<open>map_sum id trace
       (steps (Map.empty(''A.prototype.foo'' \<mapsto> \<lparr>description = ''foo of A'', usage = None, url = ''mdn''\<rparr>))
          [Call (Inspect ''x.foo'' 5 (Some (Callback 1 [])) (Some (Callback 2 [])) (Some (Callback 3 [])) (Some (Callback 4 []))), WorkerMessage (InspectionResult \<lparr>inspection = \<lparr>i_string = ''1'', i_type = ''Number'', i_constructorList = None, i_length = None, i_code = None, i_cursorPos = None, i_matchedText = None\<rparr>, doc = None\<rparr>),
           WorkerMessage (ErrorResult \<lparr>ename = ''ReferenceError'', evalue = ''x is not defined'', traceback = []\<rparr>)] Session) =
       Inr [LogTask ''inspect'' ''x.foo'', Called 3 NoArgs, Send ''inspect'' ''x.foo'',
            LogMessage (InspectionResult \<lparr>inspection = \<lparr>i_string = ''1'', i_type = ''Number'', i_constructorList = None, i_length = None, i_code = None, i_cursorPos = None, i_matchedText = None\<rparr>, doc = None\<rparr>),
            LogTask ''inspect'' ''x'', Called 3 NoArgs, Send ''inspect'' ''x'',
            LogMessage (ErrorResult \<lparr>ename = ''ReferenceError'', evalue = ''x is not defined'', traceback = []\<rparr>), Called 2 (Message (ErrorResult \<lparr>ename = ''ReferenceError'', evalue = ''x is not defined'', traceback = []\<rparr>))]\<close>
    by code_simp
  from inspect_error_skips_afterRun [of \<open>(perform (Inspect ''x.foo'' 5 (Some (Callback 1 [])) (Some (Callback 2 [])) (Some (Callback 3 [])) (Some (Callback 4 []))) Session)\<close> \<open>''x.foo''\<close> 5 \<open>\<lparr>matchedText = ''x.foo'', scope = ''x'', leftOp = ''.'', selector = ''foo'', rightOp = []\<rparr>\<close>
      \<open>Some (Callback 1 [])\<close> \<open>Some (Callback 2 [])\<close> \<open>Some (Callback 3 [])\<close>
      \<open>Some (Callback 4 [])\<close> _ \<open>(Map.empty(''A.prototype.foo'' \<mapsto> \<lparr>description = ''foo of A'', usage = None, url = ''mdn''\<rparr>))\<close> \<open>\<lparr>ename = ''ReferenceError'', evalue = ''x is not defined'', traceback = []\<rparr>\<close>] b
  have \<open>onMessage (Map.empty(''A.prototype.foo'' \<mapsto> \<lparr>description = ''foo of A'', usage = None, url = ''mdn''\<rparr>)) (ErrorResult \<lparr>ename = ''ReferenceError'', evalue = ''x is not defined'', traceback = []\<rparr>) (perform (Inspect ''x.foo'' 5 (Some (Callback 1 [])) (Some (Callback 2 [])) (Some (Callback 3 [])) (Some (Callback 4 []))) Session) =
       Inr (advance (invoke (Some (Callback 2 [])) (Message (ErrorResult \<lparr>ename = ''ReferenceError'', evalue = ''x is not defined'', traceback = []\<rparr>))
                       (emit (LogMessage (ErrorResult \<lparr>ename = ''ReferenceError'', evalue = ''x is not defined'', traceback = []\<rparr>)) (perform (Inspect ''x.foo'' 5 (Some (Callback 1 [])) (Some (Callback 2 [])) (Some (Callback 3 [])) (Some (Callback 4 []))) Session))))\<close>
    by blast
  with b c d show ?thesis by blast
qed

end
